theory Spec2Isabelle
  imports Main
begin

text \<open>
  A shallow embedding of \<^verbatim>\<open>cs_to_visual_scripting_converter.py\<close>: the extraction of the
  source model (\<^verbatim>\<open>CSharpParser\<close>), the statement translator
  (\<^verbatim>\<open>VisualScriptingGenerator._process_method\<close>) and the graph assembly
  (\<^verbatim>\<open>generate_graph\<close>, \<^verbatim>\<open>convert\<close>).

  Conventions of the embedding.
  \<^item> A Python \<^verbatim>\<open>str\<close> is a \<open>string\<close>; one \<open>char\<close> stands for one code point below
    256, so the model covers the source texts written in Latin-1. The character classes of
    \<^verbatim>\<open>re\<close> (\<^verbatim>\<open>\s\<close>, \<^verbatim>\<open>\w\<close>, \<^verbatim>\<open>\d\<close>) and of \<^verbatim>\<open>str.isdigit\<close>,
    \<^verbatim>\<open>str.strip\<close> are those of Python 3 on that range.
  \<^item> The regular expressions of the source are values of the datatype \<open>re\<close>, matched by
    a backtracking matcher with the priorities of \<^verbatim>\<open>re\<close> (alternatives left to right,
    greedy repetition, groups and back-references).
  \<^item> \<^verbatim>\<open>uuid.uuid4\<close> and the built-in \<^verbatim>\<open>hash\<close> are the two fields of an
    environment \<open>env\<close>: the \<open>n\<close>-th token handed out, and the hash of a string. The
    generator counts the tokens it has drawn.
  \<^item> An exception is a value \<open>Inl\<close> of the result; the only exception the translator
    can raise is the \<^verbatim>\<open>ValueError\<close> of \<^verbatim>\<open>int\<close>.
  \<^item> A \<^verbatim>\<open>float\<close> is represented by the literal it was read from: which strings
    \<^verbatim>\<open>float\<close> accepts is modelled, the binary value is not.
  \<^item> \<^verbatim>\<open>convert\<close> returns the graph dictionary; its rendering as text by
    \<^verbatim>\<open>json.dumps\<close> is not modelled. Of the parser's attributes only those the generator
    reads (\<^verbatim>\<open>class_name\<close>, and \<^verbatim>\<open>name\<close>, \<^verbatim>\<open>body\<close>, \<^verbatim>\<open>comments\<close> of each
    method) are modelled.
\<close>

section \<open>Characters\<close>

text \<open>
  \<open>ord c\<close> is the code point. \<open>space_code\<close> is \<^verbatim>\<open>str.isspace\<close> (and \<^verbatim>\<open>\s\<close>),
  \<open>decimal_code\<close> is \<^verbatim>\<open>str.isdecimal\<close> (and \<^verbatim>\<open>\d\<close>, and the digits that
  \<^verbatim>\<open>int\<close> reads), \<open>digit_code\<close> is \<^verbatim>\<open>str.isdigit\<close>, which also holds of the
  superscript digits U+00B2, U+00B3 and U+00B9, and \<open>word_code\<close> is \<^verbatim>\<open>\w\<close>.
\<close>

definition ord :: "char \<Rightarrow> int" where
  "ord c = of_char c"

definition decimal_code :: "int \<Rightarrow> bool" where
  "decimal_code n = (48 \<le> n \<and> n \<le> 57)"

definition digit_code :: "int \<Rightarrow> bool" where
  "digit_code n = (decimal_code n \<or> n = 178 \<or> n = 179 \<or> n = 185)"

definition space_code :: "int \<Rightarrow> bool" where
  "space_code n = ((9 \<le> n \<and> n \<le> 13) \<or> (28 \<le> n \<and> n \<le> 32) \<or> n = 133 \<or> n = 160)"

definition alpha_code :: "int \<Rightarrow> bool" where
  "alpha_code n = ((65 \<le> n \<and> n \<le> 90) \<or> (97 \<le> n \<and> n \<le> 122)
      \<or> n = 170 \<or> n = 181 \<or> n = 186
      \<or> (192 \<le> n \<and> n \<le> 214) \<or> (216 \<le> n \<and> n \<le> 246) \<or> 248 \<le> n)"

definition word_code :: "int \<Rightarrow> bool" where
  "word_code n = (alpha_code n \<or> digit_code n \<or> (188 \<le> n \<and> n \<le> 190) \<or> n = 95)"

definition isdecimal_char :: "char \<Rightarrow> bool" where
  "isdecimal_char c = decimal_code (ord c)"

definition isdigit_char :: "char \<Rightarrow> bool" where
  "isdigit_char c = digit_code (ord c)"

definition isspace_char :: "char \<Rightarrow> bool" where
  "isspace_char c = space_code (ord c)"

definition isword_char :: "char \<Rightarrow> bool" where
  "isword_char c = word_code (ord c)"

section \<open>Regular expressions\<close>

text \<open>
  The fragment of \<^verbatim>\<open>re\<close> that the patterns of the source use: literals, character
  classes, greedy \<^verbatim>\<open>*\<close> and \<^verbatim>\<open>+\<close> over a class, \<^verbatim>\<open>?\<close>, alternation,
  sequence, capturing groups and back-references. \<open>rmatch\<close> matches a stack of pattern
  items against the input and returns the first success in backtracking order, with the rest
  of the input and the captured groups; \<open>Close n s0\<close> closes group \<open>n\<close>, opened when
  the input was \<open>s0\<close>.
\<close>

datatype re =
    Lit string
  | Cls "char \<Rightarrow> bool"
  | Star "char \<Rightarrow> bool"
  | Plus "char \<Rightarrow> bool"
  | Opt re
  | Alt re re
  | Seq re re
  | Grp nat re
  | Ref nat

datatype item = R re | Close nat string

fun re_size :: "re \<Rightarrow> nat" where
  "re_size (Lit l) = 1"
| "re_size (Cls p) = 1"
| "re_size (Star p) = 1"
| "re_size (Plus p) = 3"
| "re_size (Opt r) = Suc (re_size r)"
| "re_size (Alt a b) = Suc (re_size a + re_size b)"
| "re_size (Seq a b) = Suc (re_size a + re_size b)"
| "re_size (Grp n r) = Suc (Suc (re_size r))"
| "re_size (Ref n) = 1"

fun item_size :: "item \<Rightarrow> nat" where
  "item_size (R r) = re_size r"
| "item_size (Close n s) = 1"

type_synonym groups = "nat \<Rightarrow> string option"

function rmatch :: "item list \<Rightarrow> string \<Rightarrow> groups \<Rightarrow> (string \<times> groups) option" where
  "rmatch [] s g = Some (s, g)"
| "rmatch (Close n s0 # k) s g = rmatch k s (g(n \<mapsto> take (length s0 - length s) s0))"
| "rmatch (R (Lit l) # k) s g =
     (if take (length l) s = l then rmatch k (drop (length l) s) g else None)"
| "rmatch (R (Cls p) # k) s g =
     (case s of [] \<Rightarrow> None | c # cs \<Rightarrow> if p c then rmatch k cs g else None)"
| "rmatch (R (Star p) # k) s g =
     (case s of [] \<Rightarrow> rmatch k [] g
      | c # cs \<Rightarrow>
          if p c then
            (case rmatch (R (Star p) # k) cs g of
               Some res \<Rightarrow> Some res
             | None \<Rightarrow> rmatch k (c # cs) g)
          else rmatch k (c # cs) g)"
| "rmatch (R (Plus p) # k) s g = rmatch (R (Cls p) # R (Star p) # k) s g"
| "rmatch (R (Opt r) # k) s g =
     (case rmatch (R r # k) s g of Some res \<Rightarrow> Some res | None \<Rightarrow> rmatch k s g)"
| "rmatch (R (Alt a b) # k) s g =
     (case rmatch (R a # k) s g of Some res \<Rightarrow> Some res | None \<Rightarrow> rmatch (R b # k) s g)"
| "rmatch (R (Seq a b) # k) s g = rmatch (R a # R b # k) s g"
| "rmatch (R (Grp n r) # k) s g = rmatch (R r # Close n s # k) s g"
| "rmatch (R (Ref n) # k) s g =
     (case g n of None \<Rightarrow> None
      | Some t \<Rightarrow> if take (length t) s = t then rmatch k (drop (length t) s) g else None)"
  by pat_completeness auto
termination
  by (relation "measure (\<lambda>(k, s, g). sum_list (map item_size k) + length s)") auto

text \<open>
  \<^verbatim>\<open>re.finditer\<close>: the matches from left to right, none overlapping another. A
  match that consumed nothing restarts one character further on (no pattern of the source
  matches the empty string).
\<close>

record rx_match =
  m_start :: nat
  m_end :: nat
  m_group :: groups

fun finditer_from :: "re \<Rightarrow> nat \<Rightarrow> string \<Rightarrow> rx_match list" where
  "finditer_from r pos s =
     (case rmatch [R r] s (\<lambda>n. None) of
        None \<Rightarrow> (case s of [] \<Rightarrow> [] | c # cs \<Rightarrow> finditer_from r (Suc pos) cs)
      | Some (rest, g) \<Rightarrow>
          \<lparr>m_start = pos, m_end = pos + (length s - length rest), m_group = g\<rparr> #
          (if length rest < length s then finditer_from r (pos + (length s - length rest)) rest
           else (case s of [] \<Rightarrow> [] | c # cs \<Rightarrow> finditer_from r (Suc pos) cs)))"

declare finditer_from.simps [simp del]

definition finditer :: "re \<Rightarrow> string \<Rightarrow> rx_match list" where
  "finditer r s = finditer_from r 0 s"

fun seqs :: "re list \<Rightarrow> re" where
  "seqs [] = Lit []"
| "seqs [r] = r"
| "seqs (r # rs) = Seq r (seqs rs)"

definition ws :: re where "ws = Star isspace_char"
definition ws1 :: re where "ws1 = Plus isspace_char"
definition word1 :: re where "word1 = Plus isword_char"

section \<open>String operations of the source\<close>

definition strip :: "string \<Rightarrow> string" where
  "strip s = rev (dropWhile isspace_char (rev (dropWhile isspace_char s)))"

definition startswith :: "string \<Rightarrow> string \<Rightarrow> bool" where
  "startswith s p = (take (length p) s = p)"

definition endswith :: "string \<Rightarrow> string \<Rightarrow> bool" where
  "endswith s p = (length p \<le> length s \<and> drop (length s - length p) s = p)"

fun contains :: "string \<Rightarrow> string \<Rightarrow> bool" where
  "contains sub [] = (sub = [])"
| "contains sub (c # cs) = (take (length sub) (c # cs) = sub \<or> contains sub cs)"

fun split_char :: "char \<Rightarrow> string \<Rightarrow> string list" where
  "split_char sep [] = [[]]"
| "split_char sep (c # cs) =
     (if c = sep then [] # split_char sep cs
      else (case split_char sep cs of [] \<Rightarrow> [[c]] | l # ls \<Rightarrow> (c # l) # ls))"

definition last_line :: "string \<Rightarrow> string" where
  "last_line s = rev (takeWhile (\<lambda>c. c \<noteq> CHR 0x0A) (rev s))"

definition isdigit :: "string \<Rightarrow> bool" where
  "isdigit s = (s \<noteq> [] \<and> list_all isdigit_char s)"

text \<open>
  \<^verbatim>\<open>str\<close> of a natural number, and \<^verbatim>\<open>int\<close> of a string for which
  \<^verbatim>\<open>isdigit\<close> holds: such a string has no sign, blank or underscore, and \<^verbatim>\<open>int\<close>
  reads it when all its characters are decimal digits and there are no more of them than
  \<^verbatim>\<open>sys.get_int_max_str_digits()\<close> allows (leading zeros count), and raises
  \<^verbatim>\<open>ValueError\<close> otherwise. \<open>int_max_str_digits\<close> is the default of that limit in
  CPython 3.11 and later.
\<close>

fun str_nat :: "nat \<Rightarrow> string" where
  "str_nat n = (if n < 10 then [''0123456789'' ! n]
                else str_nat (n div 10) @ [''0123456789'' ! (n mod 10)])"

declare str_nat.simps [simp del]

datatype error = ValueError

definition digit_value :: "char \<Rightarrow> int" where
  "digit_value c = ord c - 48"

definition int_max_str_digits :: nat where
  "int_max_str_digits = 4300"

definition py_int :: "string \<Rightarrow> error + int" where
  "py_int s = (if s \<noteq> [] \<and> list_all isdecimal_char s \<and> length s \<le> int_max_str_digits
               then Inr (foldl (\<lambda>acc c. 10 * acc + digit_value c) 0 s)
               else Inl ValueError)"

text \<open>
  \<^verbatim>\<open>float\<close> of a string, after the grammar of the language reference: an optional
  sign, then \<^verbatim>\<open>inf\<close>, \<^verbatim>\<open>infinity\<close> or \<^verbatim>\<open>nan\<close> in any case, or a number with
  optional fraction and exponent whose digit groups may be joined by single underscores.
\<close>

fun digitpart_tail :: "string \<Rightarrow> string" where
  "digitpart_tail [] = []"
| "digitpart_tail [c] = (if isdecimal_char c then [] else [c])"
| "digitpart_tail (c # d # cs) =
     (if isdecimal_char c then digitpart_tail (d # cs)
      else if c = CHR ''_'' \<and> isdecimal_char d then digitpart_tail cs
      else c # d # cs)"

definition digitpart :: "string \<Rightarrow> string option" where
  "digitpart s = (case s of [] \<Rightarrow> None
                  | c # cs \<Rightarrow> if isdecimal_char c then Some (digitpart_tail cs) else None)"

definition drop_sign :: "string \<Rightarrow> string" where
  "drop_sign s = (case s of [] \<Rightarrow> []
                  | c # cs \<Rightarrow> if c = CHR ''+'' \<or> c = CHR ''-'' then cs else c # cs)"

definition float_number :: "string \<Rightarrow> string option" where
  "float_number s =
     (case digitpart s of
        Some r \<Rightarrow>
          (case r of [] \<Rightarrow> Some []
           | c # r2 \<Rightarrow>
               if c = CHR ''.'' then (case digitpart r2 of Some r3 \<Rightarrow> Some r3 | None \<Rightarrow> Some r2)
               else Some r)
      | None \<Rightarrow>
          (case s of [] \<Rightarrow> None
           | c # r \<Rightarrow> if c = CHR ''.'' then digitpart r else None))"

definition float_exponent :: "string \<Rightarrow> bool" where
  "float_exponent r =
     (case r of [] \<Rightarrow> True
      | c # r2 \<Rightarrow> (c = CHR ''e'' \<or> c = CHR ''E'') \<and> digitpart (drop_sign r2) = Some [])"

definition lower_ascii :: "char \<Rightarrow> char" where
  "lower_ascii c = (if 65 \<le> ord c \<and> ord c \<le> 90 then char_of (ord c + 32) else c)"

definition py_float :: "string \<Rightarrow> error + string" where
  "py_float s =
     (let t = strip s; u = drop_sign t; l = map lower_ascii u in
      if l = ''inf'' \<or> l = ''infinity'' \<or> l = ''nan'' then Inr t
      else (case float_number u of
              None \<Rightarrow> Inl ValueError
            | Some r \<Rightarrow> if float_exponent r then Inr t else Inl ValueError))"

section \<open>Data model\<close>

datatype NodeType = EVENT | FLOW | DATA | INVOKE | GET_MEMBER | SET_MEMBER | VARIABLE | OPERATOR

datatype PortType = CONTROL_INPUT | CONTROL_OUTPUT | VALUE_INPUT | VALUE_OUTPUT

datatype json =
    JNone
  | JBool bool
  | JInt int
  | JFloat string
  | JStr string
  | JList "json list"
  | JDict "(string \<times> json) list"

record port =
  name :: string
  port_type :: PortType
  data_type :: "string option"

record node =
  guid :: string
  node_type :: string
  position :: "int \<times> int"
  category :: NodeType
  ports :: "port list"
  default_values :: "(string \<times> json) list"
  member_info :: "(string \<times> json) list option"
  description :: "string option"

record connection =
  conn_guid :: string
  source_unit_id :: string
  source_key :: string
  destination_unit_id :: string
  destination_key :: string
  connection_type :: string

text \<open>
  The environment of a run and the mutable attributes of the generator object.
  \<open>unit_id\<close> is the \<^verbatim>\<open>$id\<close> entry of \<^verbatim>\<open>Node.to_dict\<close>,
  \<^verbatim>\<open>str(abs(hash(self.guid)) % 10000)\<close>, by which connections refer to nodes.
\<close>

record env =
  uuid4 :: "nat \<Rightarrow> string"
  hash :: "string \<Rightarrow> int"

record generator =
  self_nodes :: "node list"
  self_connections :: "connection list"
  position_x :: int
  position_y :: int
  uuid_calls :: nat

definition Port :: "string \<Rightarrow> PortType \<Rightarrow> string option \<Rightarrow> port" where
  "Port n t d = \<lparr>name = n, port_type = t, data_type = d\<rparr>"

definition unit_id :: "env \<Rightarrow> node \<Rightarrow> string" where
  "unit_id e n = str_nat (nat (\<bar>hash e (guid n)\<bar> mod 10000))"

definition dict_get :: "(string \<times> 'a) list \<Rightarrow> string \<Rightarrow> 'a \<Rightarrow> 'a" where
  "dict_get d k dflt = (case map_of d k of None \<Rightarrow> dflt | Some v \<Rightarrow> v)"

definition node_to_dict :: "env \<Rightarrow> node \<Rightarrow> json" where
  "node_to_dict e n = JDict (
     [(''guid'', JStr (guid n)),
      (''$type'', JStr (node_type n)),
      (''$version'', JStr ''A''),
      (''$id'', JStr (unit_id e n)),
      (''position'', JDict [(''x'', JInt (fst (position n))), (''y'', JInt (snd (position n)))]),
      (''defaultValues'', JDict (default_values n))]
     @ (case description n of
          None \<Rightarrow> []
        | Some d \<Rightarrow> if d = [] then [] else [(''summary'', JStr d)])
     @ (case member_info n of
          None \<Rightarrow> []
        | Some mi \<Rightarrow>
            if mi = [] then []
            else [(''member'', JDict mi), (''chainable'', JBool False),
                  (''parameterNames'', dict_get mi ''parameterNames'' (JList []))])
     @ (if node_type n = ''Unity.VisualScripting.Literal''
        then (case map_of (default_values n) ''type'' of
                None \<Rightarrow> []
              | Some t \<Rightarrow>
                  [(''type'', t),
                   (''value'', dict_get (default_values n) ''value''
                      (JDict [(''$content'', JNone), (''$type'', JStr ''System.Object'')]))])
        else []))"

definition connection_to_dict :: "connection \<Rightarrow> json" where
  "connection_to_dict c = JDict
     [(''guid'', JStr (conn_guid c)),
      (''$type'', JStr (connection_type c)),
      (''sourceUnit'', JDict [(''$ref'', JStr (source_unit_id c))]),
      (''sourceKey'', JStr (source_key c)),
      (''destinationUnit'', JDict [(''$ref'', JStr (destination_unit_id c))]),
      (''destinationKey'', JStr (destination_key c))]"

definition UNITY_EVENTS :: "(string \<times> string) list" where
  "UNITY_EVENTS =
     [(''Start'', ''Unity.VisualScripting.Start''),
      (''Update'', ''Unity.VisualScripting.Update''),
      (''Awake'', ''Unity.VisualScripting.Awake''),
      (''OnEnable'', ''Unity.VisualScripting.OnEnable''),
      (''OnDisable'', ''Unity.VisualScripting.OnDisable''),
      (''OnDestroy'', ''Unity.VisualScripting.OnDestroy''),
      (''FixedUpdate'', ''Unity.VisualScripting.FixedUpdate''),
      (''LateUpdate'', ''Unity.VisualScripting.LateUpdate''),
      (''OnTriggerEnter'', ''Unity.VisualScripting.OnTriggerEnter''),
      (''OnTriggerExit'', ''Unity.VisualScripting.OnTriggerExit''),
      (''OnTriggerStay'', ''Unity.VisualScripting.OnTriggerStay''),
      (''OnCollisionEnter'', ''Unity.VisualScripting.OnCollisionEnter''),
      (''OnCollisionExit'', ''Unity.VisualScripting.OnCollisionExit''),
      (''OnCollisionStay'', ''Unity.VisualScripting.OnCollisionStay'')]"

definition TYPE_MAPPINGS :: "(string \<times> string) list" where
  "TYPE_MAPPINGS =
     [(''int'', ''System.Int32''),
      (''float'', ''System.Single''),
      (''double'', ''System.Double''),
      (''bool'', ''System.Boolean''),
      (''string'', ''System.String''),
      (''Vector2'', ''UnityEngine.Vector2''),
      (''Vector3'', ''UnityEngine.Vector3''),
      (''Quaternion'', ''UnityEngine.Quaternion''),
      (''GameObject'', ''UnityEngine.GameObject''),
      (''Transform'', ''UnityEngine.Transform'')]"

section \<open>Node and connection constructors of the generator\<close>

text \<open>
  Every constructor draws a token first and a position second, as the keyword arguments of
  \<^verbatim>\<open>Node(...)\<close> are evaluated in the order written; \<open>Node\<close> is that common part.
\<close>

definition new_guid :: "env \<Rightarrow> generator \<Rightarrow> string \<times> generator" where
  "new_guid e self = (uuid4 e (uuid_calls self), self\<lparr>uuid_calls := Suc (uuid_calls self)\<rparr>)"

definition next_position :: "generator \<Rightarrow> (int \<times> int) \<times> generator" where
  "next_position self =
     (let x = position_x self; y = position_y self;
          self1 = self\<lparr>position_x := position_x self + 250\<rparr>;
          self2 = (if position_x self1 > 1000
                   then self1\<lparr>position_x := 0, position_y := position_y self1 + 150\<rparr>
                   else self1)
      in ((x, y), self2))"

definition Node :: "env \<Rightarrow> string \<Rightarrow> NodeType \<Rightarrow> port list \<Rightarrow> (string \<times> json) list \<Rightarrow>
    (string \<times> json) list option \<Rightarrow> generator \<Rightarrow> node \<times> generator" where
  "Node e typ cat ps dv mi self =
     (let (g, self1) = new_guid e self;
          (pos, self2) = next_position self1
      in (\<lparr>guid = g, node_type = typ, position = pos, category = cat, ports = ps,
           default_values = dv, member_info = mi, description = None\<rparr>, self2))"

definition create_event_node :: "env \<Rightarrow> string \<Rightarrow> generator \<Rightarrow> node \<times> generator" where
  "create_event_node e event_name =
     Node e (dict_get UNITY_EVENTS event_name ''Unity.VisualScripting.Start'') EVENT
       [Port ''trigger'' CONTROL_OUTPUT None] [] None"

record param =
  param_type :: string
  param_name :: string

definition create_invoke_node :: "env \<Rightarrow> string \<Rightarrow> string \<Rightarrow> param list \<Rightarrow> string option \<Rightarrow>
    generator \<Rightarrow> node \<times> generator" where
  "create_invoke_node e method_name target_type parameters return_type =
     Node e ''Unity.VisualScripting.InvokeMember'' INVOKE
       ([Port ''enter'' CONTROL_INPUT None, Port ''exit'' CONTROL_OUTPUT None]
        @ map (\<lambda>(i, p). Port (str_nat i) VALUE_INPUT (Some (param_type p)))
            (enumerate 0 parameters)
        @ (case return_type of
             None \<Rightarrow> []
           | Some rt \<Rightarrow> if rt \<noteq> [] \<and> rt \<noteq> ''void''
                        then [Port ''result'' VALUE_OUTPUT (Some rt)] else []))
       []
       (Some [(''name'', JStr method_name),
              (''parameterTypes'', JList (map (\<lambda>p. JStr (param_type p)) parameters)),
              (''targetType'', JStr target_type),
              (''targetTypeName'', JStr target_type),
              (''$version'', JStr ''A'')])"

definition create_literal_node :: "env \<Rightarrow> json \<Rightarrow> string \<Rightarrow> generator \<Rightarrow> node \<times> generator" where
  "create_literal_node e v value_type =
     (let mapped_type = dict_get TYPE_MAPPINGS value_type value_type in
      Node e ''Unity.VisualScripting.Literal'' DATA
        [Port ''output'' VALUE_OUTPUT (Some mapped_type)]
        [(''type'', JStr mapped_type),
         (''value'', JDict [(''$content'', v), (''$type'', JStr mapped_type)])]
        None)"

definition create_if_node :: "env \<Rightarrow> generator \<Rightarrow> node \<times> generator" where
  "create_if_node e =
     Node e ''Unity.VisualScripting.If'' FLOW
       [Port ''enter'' CONTROL_INPUT None,
        Port ''condition'' VALUE_INPUT (Some ''System.Boolean''),
        Port ''true'' CONTROL_OUTPUT None,
        Port ''false'' CONTROL_OUTPUT None] [] None"

definition create_for_node :: "env \<Rightarrow> generator \<Rightarrow> node \<times> generator" where
  "create_for_node e =
     Node e ''Unity.VisualScripting.For'' FLOW
       [Port ''enter'' CONTROL_INPUT None,
        Port ''firstIndex'' VALUE_INPUT (Some ''System.Int32''),
        Port ''lastIndex'' VALUE_INPUT (Some ''System.Int32''),
        Port ''step'' VALUE_INPUT (Some ''System.Int32''),
        Port ''body'' CONTROL_OUTPUT None,
        Port ''exit'' CONTROL_OUTPUT None,
        Port ''currentIndex'' VALUE_OUTPUT (Some ''System.Int32'')] [] None"

definition create_while_node :: "env \<Rightarrow> generator \<Rightarrow> node \<times> generator" where
  "create_while_node e =
     Node e ''Unity.VisualScripting.While'' FLOW
       [Port ''enter'' CONTROL_INPUT None,
        Port ''condition'' VALUE_INPUT (Some ''System.Boolean''),
        Port ''body'' CONTROL_OUTPUT None,
        Port ''exit'' CONTROL_OUTPUT None] [] None"

definition create_foreach_node :: "env \<Rightarrow> string \<Rightarrow> generator \<Rightarrow> node \<times> generator" where
  "create_foreach_node e collection_type =
     Node e ''Unity.VisualScripting.ForEach'' FLOW
       [Port ''enter'' CONTROL_INPUT None,
        Port ''collection'' VALUE_INPUT (Some collection_type),
        Port ''body'' CONTROL_OUTPUT None,
        Port ''exit'' CONTROL_OUTPUT None,
        Port ''currentItem'' VALUE_OUTPUT (Some ''System.Object'')] [] None"

definition create_switch_node :: "env \<Rightarrow> nat \<Rightarrow> generator \<Rightarrow> node \<times> generator" where
  "create_switch_node e num_cases =
     Node e ''Unity.VisualScripting.SwitchOnInteger'' FLOW
       ([Port ''enter'' CONTROL_INPUT None,
         Port ''selector'' VALUE_INPUT (Some ''System.Int32'')]
        @ map (\<lambda>i. Port (str_nat i) CONTROL_OUTPUT None) [0..<num_cases]
        @ [Port ''default'' CONTROL_OUTPUT None]) [] None"

definition arithmetic_map :: "(string \<times> string \<times> string) list" where
  "arithmetic_map =
     [(''+'', ''Unity.VisualScripting.GenericAdd'', ''Add''),
      (''-'', ''Unity.VisualScripting.GenericSubtract'', ''Subtract''),
      (''*'', ''Unity.VisualScripting.GenericMultiply'', ''Multiply''),
      (''/'', ''Unity.VisualScripting.GenericDivide'', ''Divide''),
      (''%'', ''Unity.VisualScripting.GenericModulo'', ''Modulo'')]"

definition create_arithmetic_node :: "env \<Rightarrow> string \<Rightarrow> generator \<Rightarrow> node \<times> generator" where
  "create_arithmetic_node e operation =
     Node e (fst (dict_get arithmetic_map operation (''Unity.VisualScripting.GenericAdd'', ''Add'')))
       OPERATOR
       [Port ''a'' VALUE_INPUT (Some ''System.Object''),
        Port ''b'' VALUE_INPUT (Some ''System.Object''),
        Port ''result'' VALUE_OUTPUT (Some ''System.Object'')] [] None"

definition comparison_map :: "(string \<times> string) list" where
  "comparison_map =
     [(''=='', ''Unity.VisualScripting.GenericEqual''),
      (''!='', ''Unity.VisualScripting.GenericNotEqual''),
      (''<'', ''Unity.VisualScripting.GenericLess''),
      (''>'', ''Unity.VisualScripting.GenericGreater''),
      (''<='', ''Unity.VisualScripting.GenericLessOrEqual''),
      (''>='', ''Unity.VisualScripting.GenericGreaterOrEqual'')]"

definition create_comparison_node :: "env \<Rightarrow> string \<Rightarrow> generator \<Rightarrow> node \<times> generator" where
  "create_comparison_node e operation =
     Node e (dict_get comparison_map operation ''Unity.VisualScripting.GenericEqual'') OPERATOR
       [Port ''a'' VALUE_INPUT (Some ''System.Object''),
        Port ''b'' VALUE_INPUT (Some ''System.Object''),
        Port ''result'' VALUE_OUTPUT (Some ''System.Boolean'')] [] None"

definition create_yield_return_node :: "env \<Rightarrow> generator \<Rightarrow> node \<times> generator" where
  "create_yield_return_node e =
     Node e ''Unity.VisualScripting.YieldReturn'' FLOW
       [Port ''enter'' CONTROL_INPUT None,
        Port ''exit'' CONTROL_OUTPUT None,
        Port ''instruction'' VALUE_INPUT (Some ''UnityEngine.YieldInstruction'')] [] None"

definition create_wait_for_seconds_node :: "env \<Rightarrow> string \<Rightarrow> generator \<Rightarrow> node \<times> generator" where
  "create_wait_for_seconds_node e seconds =
     Node e ''Unity.VisualScripting.WaitForSeconds'' DATA
       [Port ''seconds'' VALUE_INPUT (Some ''System.Single''),
        Port ''result'' VALUE_OUTPUT (Some ''UnityEngine.WaitForSeconds'')]
       [(''seconds'', JFloat seconds)] None"

definition create_custom_invoke_node :: "env \<Rightarrow> string \<Rightarrow> string \<Rightarrow> param list \<Rightarrow>
    string option \<Rightarrow> bool \<Rightarrow> generator \<Rightarrow> node \<times> generator" where
  "create_custom_invoke_node e method_name target_type parameters return_type is_static =
     Node e ''Unity.VisualScripting.InvokeMember'' INVOKE
       ([Port ''enter'' CONTROL_INPUT None, Port ''exit'' CONTROL_OUTPUT None]
        @ (if \<not> is_static then [Port ''target'' VALUE_INPUT (Some target_type)] else [])
        @ map (\<lambda>p. Port (''%'' @ param_name p) VALUE_INPUT
                 (Some (dict_get TYPE_MAPPINGS (param_type p) (param_type p)))) parameters
        @ (case return_type of
             None \<Rightarrow> []
           | Some rt \<Rightarrow> if rt \<noteq> [] \<and> rt \<noteq> ''void''
                        then [Port ''result'' VALUE_OUTPUT (Some (dict_get TYPE_MAPPINGS rt rt))]
                        else []))
       []
       (Some [(''name'', JStr method_name),
              (''parameterTypes'',
                 JList (map (\<lambda>p. JStr (dict_get TYPE_MAPPINGS (param_type p) (param_type p)))
                   parameters)),
              (''targetType'', JStr target_type),
              (''targetTypeName'', JStr target_type),
              (''parameterNames'', JList (map (\<lambda>p. JStr (param_name p)) parameters)),
              (''$version'', JStr ''A'')])"

definition create_set_variable_node :: "env \<Rightarrow> string \<Rightarrow> string \<Rightarrow> generator \<Rightarrow> node \<times> generator" where
  "create_set_variable_node e var_name var_type =
     Node e ''Unity.VisualScripting.SetVariable'' VARIABLE
       [Port ''enter'' CONTROL_INPUT None,
        Port ''exit'' CONTROL_OUTPUT None,
        Port ''input'' VALUE_INPUT (Some var_type)]
       [(''name'', JStr var_name)] None"

definition create_connection :: "env \<Rightarrow> node \<Rightarrow> string \<Rightarrow> node \<Rightarrow> string \<Rightarrow> bool \<Rightarrow>
    generator \<Rightarrow> connection \<times> generator" where
  "create_connection e source_node skey dest_node dkey is_control self =
     (let conn_type = (if is_control then ''Unity.VisualScripting.ControlConnection''
                       else ''Unity.VisualScripting.ValueConnection'');
          (g, self1) = new_guid e self
      in (\<lparr>conn_guid = g,
           source_unit_id = unit_id e source_node,
           source_key = skey,
           destination_unit_id = unit_id e dest_node,
           destination_key = dkey,
           connection_type = conn_type\<rparr>, self1))"

section \<open>The statement translator\<close>

text \<open>
  The patterns of \<^verbatim>\<open>_process_method\<close>, in the order of the source.
\<close>

definition not_char :: "char \<Rightarrow> char \<Rightarrow> bool" where
  "not_char x c = (c \<noteq> x)"

definition for_pattern :: re where
  "for_pattern = seqs
     [Lit ''for'', ws, Lit ''('', ws, Alt (Lit ''int'') (Lit ''var''), ws1,
      Grp 1 word1, ws, Lit ''='', ws, Grp 2 (Plus (not_char CHR '';'')), Lit '';'', ws,
      Ref 1, ws, Grp 3 (Seq (Cls (\<lambda>c. c = CHR ''<'' \<or> c = CHR ''>'')) (Opt (Lit ''=''))), ws,
      Grp 4 (Plus (not_char CHR '';'')), Lit '';'', ws,
      Ref 1, ws,
      Grp 5 (Alt (Lit ''++'') (Alt (Lit ''--'')
         (Alt (seqs [Lit ''+='', ws, Plus isdecimal_char])
              (seqs [Lit ''-='', ws, Plus isdecimal_char])))),
      ws, Lit '')'']"

definition while_pattern :: re where
  "while_pattern = seqs [Lit ''while'', ws, Lit ''('', Grp 1 (Plus (not_char CHR '')'')), Lit '')'']"

definition foreach_pattern :: re where
  "foreach_pattern = seqs
     [Lit ''foreach'', ws, Lit ''('', ws, Alt (Lit ''var'') (Grp 1 word1), ws1,
      Grp 2 word1, ws1, Lit ''in'', ws1, Grp 3 (Plus (not_char CHR '')'')), Lit '')'']"

definition switch_pattern :: re where
  "switch_pattern = seqs
     [Lit ''switch'', ws, Lit ''('', Grp 1 (Plus (not_char CHR '')'')), Lit '')'', ws, Lit ''{'']"

definition case_pattern :: re where
  "case_pattern = seqs [Lit ''case'', ws1, Plus isdecimal_char, Lit '':'']"

definition debug_log_pattern :: re where
  "debug_log_pattern = seqs
     [Lit ''Debug.Log'', ws, Lit ''('', Grp 1 (Plus (not_char CHR '')'')), Lit '')'']"

definition if_pattern :: re where
  "if_pattern = seqs [Lit ''if'', ws, Lit ''('', Grp 1 (Plus (not_char CHR '')'')), Lit '')'']"

definition assignment_pattern :: re where
  "assignment_pattern = seqs
     [Grp 1 word1, ws, Lit ''='', ws, Grp 2 (Plus (not_char CHR '';'')), Lit '';'']"

definition yield_pattern :: re where
  "yield_pattern = seqs
     [Lit ''yield'', ws1, Lit ''return'', ws1, Opt (Seq (Lit ''new'') ws1), Grp 1 word1, ws,
      Opt (seqs [Lit ''('', Grp 2 (Star (not_char CHR '')'')), Lit '')''])]"

definition method_call_pattern :: re where
  "method_call_pattern = seqs
     [Grp 1 word1, Lit ''.'', Grp 2 word1, ws, Lit ''('', Grp 3 (Star (not_char CHR '')'')),
      Lit '')'']"

text \<open>
  \<open>group_of m n\<close> is \<^verbatim>\<open>match.group(n)\<close> for a group that stands outside every
  \<^verbatim>\<open>?\<close> and alternative of its pattern, and so takes part in every match; the optional
  group of the yield pattern is read with \<open>m_group\<close>, \<open>None\<close> when it took no part.
  \<open>scan_braces\<close> is the loop shared by \<^verbatim>\<open>_extract_body\<close> and
  \<^verbatim>\<open>_extract_switch_body\<close>: the index of the first closing brace at which the depth
  returns to zero.
\<close>

definition group_of :: "rx_match \<Rightarrow> nat \<Rightarrow> string" where
  "group_of m n = (case m_group m n of None \<Rightarrow> [] | Some s \<Rightarrow> s)"

fun scan_braces :: "int \<Rightarrow> nat \<Rightarrow> string \<Rightarrow> nat option" where
  "scan_braces depth i [] = None"
| "scan_braces depth i (c # cs) =
     (if c = CHR ''{'' then scan_braces (depth + 1) (Suc i) cs
      else if c = CHR ''}'' then
        (if depth - 1 = 0 then Some i else scan_braces (depth - 1) (Suc i) cs)
      else scan_braces depth (Suc i) cs)"

definition extract_switch_body :: "string \<Rightarrow> nat \<Rightarrow> string" where
  "extract_switch_body code start_pos =
     (case scan_braces 0 0 (drop start_pos code) of
        None \<Rightarrow> []
      | Some i \<Rightarrow> take i (drop start_pos code))"

record method_info =
  method_name :: string
  body :: string
  comments :: string

text \<open>
  The local variables of \<^verbatim>\<open>_process_method\<close>. \<open>append_node\<close> is
  \<^verbatim>\<open>x = self._create_...(); nodes.append(x)\<close>, \<open>append_connection\<close> is
  \<^verbatim>\<open>conn = self._create_connection(...); connections.append(conn)\<close>, and
  \<open>connect_last\<close> is the block \<^verbatim>\<open>if last_node: ...\<close> that every category repeats.
  The comparison \<^verbatim>\<open>last_node == event_node\<close> is the field-wise equality of the
  dataclass.
\<close>

record locals =
  self :: generator
  nodes :: "node list"
  connections :: "connection list"
  last_node :: "node option"

definition append_node :: "(generator \<Rightarrow> node \<times> generator) \<Rightarrow> locals \<Rightarrow> node \<times> locals" where
  "append_node create st =
     (let (n, self1) = create (self st) in (n, st\<lparr>self := self1, nodes := nodes st @ [n]\<rparr>))"

definition append_connection :: "env \<Rightarrow> node \<Rightarrow> string \<Rightarrow> node \<Rightarrow> string \<Rightarrow> bool \<Rightarrow>
    locals \<Rightarrow> locals" where
  "append_connection e source_node skey dest_node dkey is_control st =
     (let (conn, self1) = create_connection e source_node skey dest_node dkey is_control (self st)
      in st\<lparr>self := self1, connections := connections st @ [conn]\<rparr>)"

definition connect_last :: "env \<Rightarrow> node option \<Rightarrow> node \<Rightarrow> locals \<Rightarrow> locals" where
  "connect_last e event_node dest st =
     (case last_node st of
        None \<Rightarrow> st
      | Some l \<Rightarrow>
          append_connection e l (if Some l = event_node then ''trigger'' else ''exit'')
            dest ''enter'' True st)"

text \<open>
  One iteration of each of the nine loops over \<^verbatim>\<open>re.finditer\<close>.
\<close>

definition for_step :: "env \<Rightarrow> node option \<Rightarrow> locals \<Rightarrow> rx_match \<Rightarrow> error + locals" where
  "for_step e event_node st m =
     (let start_val = strip (group_of m 2);
          end_val = strip (group_of m 4);
          (for_node, st1) = append_node (create_for_node e) st
      in case (if isdigit start_val then py_int start_val else Inr 0) of
           Inl err \<Rightarrow> Inl err
         | Inr start_int \<Rightarrow>
        (let (start_literal, st2) = append_node (create_literal_node e (JInt start_int) ''int'') st1
         in case (if isdigit end_val then py_int end_val else Inr 10) of
              Inl err \<Rightarrow> Inl err
            | Inr end_int \<Rightarrow>
           (let (end_literal, st3) = append_node (create_literal_node e (JInt end_int) ''int'') st2;
                st4 = connect_last e event_node for_node st3;
                st5 = append_connection e start_literal ''output'' for_node ''%firstIndex'' False st4;
                st6 = append_connection e end_literal ''output'' for_node ''%lastIndex'' False st5
            in Inr (st6\<lparr>last_node := Some for_node\<rparr>))))"

definition while_step :: "env \<Rightarrow> node option \<Rightarrow> locals \<Rightarrow> rx_match \<Rightarrow> locals" where
  "while_step e event_node st m =
     (let (while_node, st1) = append_node (create_while_node e) st;
          st2 = connect_last e event_node while_node st1
      in st2\<lparr>last_node := Some while_node\<rparr>)"

definition foreach_step :: "env \<Rightarrow> node option \<Rightarrow> locals \<Rightarrow> rx_match \<Rightarrow> locals" where
  "foreach_step e event_node st m =
     (let (foreach_node, st1) =
            append_node (create_foreach_node e ''System.Collections.IEnumerable'') st;
          st2 = connect_last e event_node foreach_node st1
      in st2\<lparr>last_node := Some foreach_node\<rparr>)"

definition switch_step :: "env \<Rightarrow> node option \<Rightarrow> string \<Rightarrow> locals \<Rightarrow> rx_match \<Rightarrow> locals" where
  "switch_step e event_node body_text st m =
     (let switch_start = m_end m;
          switch_body = extract_switch_body body_text switch_start;
          num_cases = length (finditer case_pattern switch_body);
          (switch_node, st1) = append_node (create_switch_node e num_cases) st;
          st2 = connect_last e event_node switch_node st1
      in st2\<lparr>last_node := Some switch_node\<rparr>)"

definition debug_log_step :: "env \<Rightarrow> node option \<Rightarrow> locals \<Rightarrow> rx_match \<Rightarrow> locals" where
  "debug_log_step e event_node st m =
     (let log_arg = strip (group_of m 1);
          (debug_node, st1) = append_node
            (create_invoke_node e ''Log'' ''UnityEngine.Debug''
               [\<lparr>param_type = ''System.Object'', param_name = ''message''\<rparr>] None) st;
          st2 = connect_last e event_node debug_node st1;
          st3 = (if startswith log_arg [CHR 0x22] \<and> endswith log_arg [CHR 0x22] then
                   (let literal_value = butlast (tl log_arg);
                        (literal_node, st2a) =
                          append_node (create_literal_node e (JStr literal_value) ''string'') st2
                    in append_connection e literal_node ''output'' debug_node ''%message'' False st2a)
                 else st2)
      in st3\<lparr>last_node := Some debug_node\<rparr>)"

definition comparison_ops :: "string list" where
  "comparison_ops = [''<='', ''>='', ''=='', ''!='', ''<'', ''>'']"

definition if_step :: "env \<Rightarrow> node option \<Rightarrow> locals \<Rightarrow> rx_match \<Rightarrow> locals" where
  "if_step e event_node st m =
     (let condition = strip (group_of m 1);
          (if_node, st1) = append_node (create_if_node e) st;
          st2 = connect_last e event_node if_node st1;
          st3 = (case find (\<lambda>op. contains op condition) comparison_ops of
                   None \<Rightarrow> st2
                 | Some op \<Rightarrow>
                     (let (comp_node, st2a) = append_node (create_comparison_node e op) st2
                      in append_connection e comp_node ''result'' if_node ''%condition'' False st2a))
      in st3\<lparr>last_node := Some if_node\<rparr>)"

definition arithmetic_ops :: "string list" where
  "arithmetic_ops = [''+'', ''-'', ''*'', ''/'', ''%'']"

definition assignment_step :: "env \<Rightarrow> node option \<Rightarrow> locals \<Rightarrow> rx_match \<Rightarrow> locals" where
  "assignment_step e event_node st m =
     (let var_name = group_of m 1;
          var_value = strip (group_of m 2);
          (set_var_node, st1) =
            append_node (create_set_variable_node e var_name ''System.Object'') st;
          st2 = connect_last e event_node set_var_node st1;
          st3 = (case find (\<lambda>op. contains op var_value \<and> \<not> startswith var_value [CHR 0x22])
                        arithmetic_ops of
                   None \<Rightarrow> st2
                 | Some op \<Rightarrow>
                     (let (arith_node, st2a) = append_node (create_arithmetic_node e op) st2
                      in append_connection e arith_node ''result'' set_var_node ''%input'' False st2a))
      in st3\<lparr>last_node := Some set_var_node\<rparr>)"

definition yield_step :: "env \<Rightarrow> node option \<Rightarrow> locals \<Rightarrow> rx_match \<Rightarrow> locals" where
  "yield_step e event_node st m =
     (let yield_type = group_of m 1;
          yield_args = m_group m 2;
          (yield_node, st1) = append_node (create_yield_return_node e) st;
          st2 = connect_last e event_node yield_node st1;
          st3 = (case yield_args of
                   None \<Rightarrow> st2
                 | Some args \<Rightarrow>
                     if yield_type = ''WaitForSeconds'' \<and> args \<noteq> [] then
                       (case py_float (strip args) of
                          Inl err \<Rightarrow> st2
                        | Inr seconds \<Rightarrow>
                            (let (wait_node, st2a) =
                                   append_node (create_wait_for_seconds_node e seconds) st2
                             in append_connection e wait_node ''result'' yield_node ''%instruction''
                                  False st2a))
                     else st2)
      in st3\<lparr>last_node := Some yield_node\<rparr>)"

definition call_step :: "env \<Rightarrow> node option \<Rightarrow> string \<Rightarrow> locals \<Rightarrow> rx_match \<Rightarrow> locals" where
  "call_step e event_node body_text st m =
     (let target_obj = group_of m 1;
          method_nm = group_of m 2;
          args_str = strip (group_of m 3)
      in if target_obj = ''Debug'' \<and> method_nm = ''Log'' then st
         else
           (let pre_context = drop (m_start m - 20) (take (m_start m) body_text)
            in if CHR ''='' \<in> set (last_line pre_context) then st
               else
                 (let target_type =
                        (if target_obj \<in> set [''GameObject'', ''Transform'', ''Rigidbody'']
                         then ''UnityEngine.'' @ target_obj else target_obj);
                      arg_count = (if args_str \<noteq> []
                                   then length (filter (\<lambda>a. strip a \<noteq> [])
                                                  (split_char CHR '','' args_str))
                                   else 0);
                      parameters = map (\<lambda>i. \<lparr>param_type = ''System.Object'',
                                               param_name = ''arg'' @ str_nat i\<rparr>) [0..<arg_count];
                      (custom_node, st1) = append_node
                        (create_custom_invoke_node e method_nm target_type parameters
                           (Some ''void'') False) st;
                      st2 = connect_last e event_node custom_node st1
                  in st2\<lparr>last_node := Some custom_node\<rparr>)))"

text \<open>
  The method as a whole. Only the loop over the for-loops can raise. The description is
  attached to the event node, which is the first element of \<open>nodes\<close>.
\<close>

fun run_steps :: "('s \<Rightarrow> 'm \<Rightarrow> error + 's) \<Rightarrow> 'm list \<Rightarrow> 's \<Rightarrow> error + 's" where
  "run_steps f [] st = Inr st"
| "run_steps f (m # ms) st =
     (case f st m of Inl err \<Rightarrow> Inl err | Inr st1 \<Rightarrow> run_steps f ms st1)"

definition attach_description :: "method_info \<Rightarrow> node option \<Rightarrow> node list \<Rightarrow> node list" where
  "attach_description meth event_node ns =
     (if comments meth \<noteq> [] \<and> ns \<noteq> [] then
        (case event_node of
           None \<Rightarrow> ns
         | Some ev \<Rightarrow> ns[0 := ev\<lparr>description := Some (comments meth)\<rparr>])
      else ns)"

definition process_method :: "env \<Rightarrow> generator \<Rightarrow> method_info \<Rightarrow>
    error + ((node list \<times> connection list) \<times> generator)" where
  "process_method e self0 meth =
     (let st0 = \<lparr>self = self0, nodes = [], connections = [], last_node = None\<rparr>;
          (event_node, st1) =
            (if method_name meth \<in> fst ` set UNITY_EVENTS then
               (let (ev, st) = append_node (create_event_node e (method_name meth)) st0
                in (Some ev, st\<lparr>last_node := Some ev\<rparr>))
             else (None, st0));
          b = body meth
      in case run_steps (for_step e event_node) (finditer for_pattern b) st1 of
           Inl err \<Rightarrow> Inl err
         | Inr st2 \<Rightarrow>
        (let st3 = foldl (while_step e event_node) st2 (finditer while_pattern b);
             st4 = foldl (foreach_step e event_node) st3 (finditer foreach_pattern b);
             st5 = foldl (switch_step e event_node b) st4 (finditer switch_pattern b);
             st6 = foldl (debug_log_step e event_node) st5 (finditer debug_log_pattern b);
             st7 = foldl (if_step e event_node) st6 (finditer if_pattern b);
             st8 = foldl (assignment_step e event_node) st7 (finditer assignment_pattern b);
             st9 = foldl (yield_step e event_node) st8 (finditer yield_pattern b);
             st10 = foldl (call_step e event_node b) st9 (finditer method_call_pattern b)
         in Inr ((attach_description meth event_node (nodes st10), connections st10),
                 self st10)))"

section \<open>Graph assembly\<close>

record csharp_parser =
  class_name :: "string option"
  methods :: "method_info list"

fun process_methods :: "env \<Rightarrow> method_info list \<Rightarrow> generator \<Rightarrow> error + generator" where
  "process_methods e [] self0 = Inr self0"
| "process_methods e (meth # rest) self0 =
     (case process_method e self0 meth of
        Inl err \<Rightarrow> Inl err
      | Inr ((method_nodes, method_connections), self1) \<Rightarrow>
          process_methods e rest
            (self1\<lparr>self_nodes := self_nodes self1 @ method_nodes,
                   self_connections := self_connections self1 @ method_connections\<rparr>))"

definition graph_document :: "csharp_parser \<Rightarrow> json list \<Rightarrow> json" where
  "graph_document parser elements =
     JDict [(''nest'', JDict
       [(''source'', JStr ''Embed''),
        (''macro'', JNone),
        (''embed'', JDict
          [(''variables'', JDict
             [(''Kind'', JStr ''Flow''),
              (''collection'', JDict [(''$content'', JList []), (''$version'', JStr ''A'')]),
              (''$version'', JStr ''A'')]),
           (''controlInputDefinitions'', JList []),
           (''controlOutputDefinitions'', JList []),
           (''valueInputDefinitions'', JList []),
           (''valueOutputDefinitions'', JList []),
           (''title'', JStr (case class_name parser of
                               None \<Rightarrow> ''ConvertedGraph''
                             | Some c \<Rightarrow> if c = [] then ''ConvertedGraph'' else c)),
           (''summary'', JStr (case class_name parser of
                                 None \<Rightarrow> ''Converted Graph''
                               | Some c \<Rightarrow> if c = [] then ''Converted Graph''
                                           else ''Converted from '' @ c @ ''.cs'')),
           (''pan'', JDict [(''x'', JFloat ''0.0''), (''y'', JFloat ''0.0'')]),
           (''zoom'', JFloat ''1.0''),
           (''elements'', JList elements),
           (''$version'', JStr ''A'')])])]"

definition generate_graph :: "env \<Rightarrow> csharp_parser \<Rightarrow> generator \<Rightarrow> error + (json \<times> generator)" where
  "generate_graph e parser self0 =
     (case process_methods e (methods parser) self0 of
        Inl err \<Rightarrow> Inl err
      | Inr self1 \<Rightarrow>
          (let elements = map (node_to_dict e) (self_nodes self1)
                            @ map connection_to_dict (self_connections self1)
           in Inr (graph_document parser elements, self1)))"

section \<open>Source model extraction\<close>

text \<open>
  \<^verbatim>\<open>CSharpParser\<close>, restricted to what the generator reads.
\<close>

definition class_pattern :: re where
  "class_pattern = seqs
     [Lit ''class'', ws1, Grp 1 word1, ws, Opt (seqs [Lit '':'', ws, Grp 2 word1])]"

definition method_pattern :: re where
  "method_pattern = seqs
     [Opt (seqs [Lit ''['', Plus (not_char CHR '']''), Lit '']'']), ws,
      Opt (Grp 1 (Alt (Lit ''public'') (Alt (Lit ''private'')
                   (Alt (Lit ''protected'') (Lit ''internal''))))), ws,
      Opt (Grp 2 (Lit ''static'')), ws,
      Opt (Grp 3 (Alt (Lit ''virtual'') (Alt (Lit ''override'') (Lit ''abstract'')))), ws,
      Opt (Grp 4 (Lit ''async'')), ws,
      Grp 5 (Seq word1 (Opt (seqs [Lit ''<'', Plus (not_char CHR ''>''), Lit ''>'']))), ws1,
      Grp 6 word1, ws, Lit ''('', Grp 7 (Star (not_char CHR '')'')), Lit '')'', ws, Lit ''{'']"

fun search_from :: "re \<Rightarrow> nat \<Rightarrow> string \<Rightarrow> rx_match option" where
  "search_from r pos s =
     (case rmatch [R r] s (\<lambda>n. None) of
        Some (rest, g) \<Rightarrow>
          Some \<lparr>m_start = pos, m_end = pos + (length s - length rest), m_group = g\<rparr>
      | None \<Rightarrow> (case s of [] \<Rightarrow> None | c # cs \<Rightarrow> search_from r (Suc pos) cs))"

declare search_from.simps [simp del]

definition search :: "re \<Rightarrow> string \<Rightarrow> rx_match option" where
  "search r s = search_from r 0 s"

definition extract_body :: "string \<Rightarrow> nat \<Rightarrow> string" where
  "extract_body code start_pos =
     (case scan_braces 0 0 (drop start_pos code) of
        None \<Rightarrow> []
      | Some i \<Rightarrow> take (Suc i) (drop start_pos code))"

definition lstrip_chars :: "string \<Rightarrow> string \<Rightarrow> string" where
  "lstrip_chars cs s = dropWhile (\<lambda>c. c \<in> set cs) s"

definition rstrip_chars :: "string \<Rightarrow> string \<Rightarrow> string" where
  "rstrip_chars cs s = rev (dropWhile (\<lambda>c. c \<in> set cs) (rev s))"

fun harvest_comments :: "string list \<Rightarrow> string list \<Rightarrow> string list" where
  "harvest_comments [] acc = acc"
| "harvest_comments (l # ls) acc =
     (let line = strip l in
      if startswith line ''//'' then harvest_comments ls (strip (drop 2 line) # acc)
      else if startswith line ''/*'' \<or> startswith line ''*'' then
        harvest_comments ls (strip (rstrip_chars ''*/'' (lstrip_chars ''/*'' line)) # acc)
      else if line \<noteq> [] \<and> \<not> startswith line ''['' then acc
      else harvest_comments ls acc)"

fun join_space :: "string list \<Rightarrow> string" where
  "join_space [] = []"
| "join_space [s] = s"
| "join_space (s # t # ss) = s @ '' '' @ join_space (t # ss)"

definition extract_method_comments :: "string \<Rightarrow> nat \<Rightarrow> string" where
  "extract_method_comments code method_pos =
     (let lines_before = split_char CHR 0x0A (take method_pos code);
          window = drop (length lines_before - 5) lines_before
      in join_space (harvest_comments (rev window) []))"

definition extract_methods :: "string \<Rightarrow> method_info list" where
  "extract_methods code =
     map (\<lambda>m. \<lparr>method_name = group_of m 6,
               body = extract_body code (m_end m - 1),
               comments = extract_method_comments code (m_start m)\<rparr>)
       (finditer method_pattern code)"

definition CSharpParser :: "string \<Rightarrow> csharp_parser" where
  "CSharpParser code =
     \<lparr>class_name = (case search class_pattern code of
                      None \<Rightarrow> None
                    | Some m \<Rightarrow> m_group m 1),
      methods = extract_methods code\<rparr>"

definition VisualScriptingGenerator :: generator where
  "VisualScriptingGenerator =
     \<lparr>self_nodes = [], self_connections = [], position_x = 0, position_y = 0, uuid_calls = 0\<rparr>"

definition convert :: "env \<Rightarrow> string \<Rightarrow> error + json" where
  "convert e cs_code =
     (case generate_graph e (CSharpParser cs_code) VisualScriptingGenerator of
        Inl err \<Rightarrow> Inl err
      | Inr (graph, self1) \<Rightarrow> Inr graph)"

section \<open>Observations on the emitted graph\<close>

text \<open>
  A construct node is a node with an \<open>enter\<close> port: the node that a translation step
  wires into the control flow. \<open>chain e cur cs\<close> is the control wiring that the cursor
  protocol prescribes for the constructs \<open>cs\<close> when the cursor starts at \<open>cur\<close>: each
  construct is entered from the cursor, which then moves to its \<open>exit\<close>.
\<close>

definition is_construct :: "node \<Rightarrow> bool" where
  "is_construct n = (''enter'' \<in> set (map name (ports n)))"

definition is_control :: "connection \<Rightarrow> bool" where
  "is_control c = (connection_type c = ''Unity.VisualScripting.ControlConnection'')"

type_synonym edge = "string \<times> string \<times> string \<times> string"

definition edge :: "connection \<Rightarrow> edge" where
  "edge c = (source_unit_id c, source_key c, destination_unit_id c, destination_key c)"

fun chain :: "env \<Rightarrow> (node \<times> string) option \<Rightarrow> node list \<Rightarrow> edge list" where
  "chain e cur [] = []"
| "chain e cur (c # cs) =
     (case cur of None \<Rightarrow> [] | Some (p, k) \<Rightarrow> [(unit_id e p, k, unit_id e c, ''enter'')])
     @ chain e (Some (c, ''exit'')) cs"

definition trigger_of :: "node option \<Rightarrow> (node \<times> string) option" where
  "trigger_of ev = (case ev of None \<Rightarrow> None | Some v \<Rightarrow> Some (v, ''trigger''))"

definition cursor :: "node option \<Rightarrow> node list \<Rightarrow> node option" where
  "cursor ev cons = (if cons = [] then ev else Some (last cons))"

definition cursor_edges :: "env \<Rightarrow> node option \<Rightarrow> node option \<Rightarrow> node \<Rightarrow> edge list" where
  "cursor_edges e ev lst dest =
     (case lst of
        None \<Rightarrow> []
      | Some l \<Rightarrow> [(unit_id e l, if Some l = ev then ''trigger'' else ''exit'',
                    unit_id e dest, ''enter'')])"

definition cursor_conns :: "env \<Rightarrow> node option \<Rightarrow> node option \<Rightarrow> node \<Rightarrow> generator \<Rightarrow>
    connection list" where
  "cursor_conns e ev lst dest g =
     (case lst of
        None \<Rightarrow> []
      | Some l \<Rightarrow> [fst (create_connection e l (if Some l = ev then ''trigger'' else ''exit'')
                        dest ''enter'' True g)])"

text \<open>
  \<open>rank\<close> is the place of a construct node's category in the scan order. The logging
  call and the generic call both yield \<^verbatim>\<open>InvokeMember\<close> nodes; only the latter has a
  \<open>target\<close> port. \<open>emits e ev k st st'\<close> says that a step took \<open>st\<close> to \<open>st'\<close>
  by appending one construct of rank \<open>k\<close>, auxiliary value nodes after it, the connection
  from the cursor and value connections into the construct, and moved the cursor to the
  construct. \<open>run\<close> is a sequence of such steps, with the ranks of the constructs emitted.
\<close>

definition rank :: "node \<Rightarrow> nat" where
  "rank n =
     (if node_type n = ''Unity.VisualScripting.For'' then 0
      else if node_type n = ''Unity.VisualScripting.While'' then 1
      else if node_type n = ''Unity.VisualScripting.ForEach'' then 2
      else if node_type n = ''Unity.VisualScripting.SwitchOnInteger'' then 3
      else if node_type n = ''Unity.VisualScripting.InvokeMember''
              \<and> ''target'' \<notin> set (map name (ports n)) then 4
      else if node_type n = ''Unity.VisualScripting.If'' then 5
      else if node_type n = ''Unity.VisualScripting.SetVariable'' then 6
      else if node_type n = ''Unity.VisualScripting.YieldReturn'' then 7
      else 8)"

definition is_auxiliary :: "node \<Rightarrow> bool" where
  "is_auxiliary a \<longleftrightarrow> \<not> is_construct a
     \<and> node_type a \<noteq> ''Unity.VisualScripting.For''
     \<and> node_type a \<noteq> ''Unity.VisualScripting.If''"

definition feeds :: "env \<Rightarrow> node \<Rightarrow> node list \<Rightarrow> connection \<Rightarrow> bool" where
  "feeds e main aux v \<longleftrightarrow> is_control v
     \<or> (source_unit_id v \<in> unit_id e ` set (main # aux) \<and> destination_unit_id v = unit_id e main)"

definition emits :: "env \<Rightarrow> node option \<Rightarrow> nat \<Rightarrow> locals \<Rightarrow> locals \<Rightarrow> bool" where
  "emits e ev k st st' \<longleftrightarrow>
     (let n0 = length (nodes st);
          main = nodes st' ! n0;
          aux = drop (Suc n0) (nodes st');
          new = drop (length (connections st)) (connections st')
      in take n0 (nodes st') = nodes st \<and> n0 < length (nodes st')
         \<and> take (length (connections st)) (connections st') = connections st
         \<and> is_construct main \<and> rank main = k \<and> list_all is_auxiliary aux
         \<and> map edge (filter is_control new) = cursor_edges e ev (last_node st) main
         \<and> list_all (feeds e main aux) new
         \<and> last_node st' = Some main
         \<and> self_nodes (self st') = self_nodes (self st)
         \<and> self_connections (self st') = self_connections (self st))"

inductive run :: "env \<Rightarrow> node option \<Rightarrow> nat list \<Rightarrow> locals \<Rightarrow> locals \<Rightarrow> bool"
  for e :: env and ev :: "node option" where
  run_nil: "run e ev [] st st"
| run_snoc: "run e ev ks st st' \<Longrightarrow> emits e ev k st' st'' \<Longrightarrow> run e ev (ks @ [k]) st st''"

definition event_of :: "env \<Rightarrow> generator \<Rightarrow> method_info \<Rightarrow> node option" where
  "event_of e g meth =
     (if method_name meth \<in> fst ` set UNITY_EVENTS
      then Some (fst (create_event_node e (method_name meth) g)) else None)"

definition start_state :: "env \<Rightarrow> generator \<Rightarrow> method_info \<Rightarrow> locals" where
  "start_state e g meth =
     (if method_name meth \<in> fst ` set UNITY_EVENTS
      then \<lparr>self = snd (create_event_node e (method_name meth) g),
            nodes = [fst (create_event_node e (method_name meth) g)],
            connections = [],
            last_node = Some (fst (create_event_node e (method_name meth) g))\<rparr>
      else \<lparr>self = g, nodes = [], connections = [], last_node = None\<rparr>)"

definition categories :: "string \<Rightarrow> nat \<Rightarrow> nat list" where
  "categories b calls =
     replicate (length (finditer for_pattern b)) 0
     @ replicate (length (finditer while_pattern b)) 1
     @ replicate (length (finditer foreach_pattern b)) 2
     @ replicate (length (finditer switch_pattern b)) 3
     @ replicate (length (finditer debug_log_pattern b)) 4
     @ replicate (length (finditer if_pattern b)) 5
     @ replicate (length (finditer assignment_pattern b)) 6
     @ replicate (length (finditer yield_pattern b)) 7
     @ replicate calls 8"

definition wired :: "env \<Rightarrow> node option \<Rightarrow> locals \<Rightarrow> bool" where
  "wired e ev st \<longleftrightarrow>
     (case ev of None \<Rightarrow> True | Some v \<Rightarrow> \<not> is_construct v \<and> v \<in> set (nodes st)) \<and>
     last_node st = cursor ev (filter is_construct (nodes st)) \<and>
     map edge (filter is_control (connections st)) =
       chain e (trigger_of ev) (filter is_construct (nodes st)) \<and>
     (\<forall>c \<in> set (connections st).
        source_unit_id c \<in> unit_id e ` set (nodes st) \<and>
        destination_unit_id c \<in> unit_id e ` set (filter is_construct (nodes st)))"

section \<open>Observations on the document\<close>

fun jget :: "string \<Rightarrow> json \<Rightarrow> json option" where
  "jget k (JDict kv) = map_of kv k"
| "jget k j = None"

definition document_elements :: "json \<Rightarrow> json list" where
  "document_elements graph =
     (case jget ''nest'' graph of
        None \<Rightarrow> []
      | Some nest \<Rightarrow>
          (case jget ''embed'' nest of
             None \<Rightarrow> []
           | Some em \<Rightarrow>
               (case jget ''elements'' em of Some (JList xs) \<Rightarrow> xs | _ \<Rightarrow> [])))"

definition is_node_element :: "json \<Rightarrow> bool" where
  "is_node_element j \<longleftrightarrow> jget ''$id'' j \<noteq> None \<and> jget ''sourceUnit'' j = None"

definition is_connection_element :: "json \<Rightarrow> bool" where
  "is_connection_element j \<longleftrightarrow> jget ''sourceUnit'' j \<noteq> None \<and> jget ''$id'' j = None"

definition element_refs :: "json \<Rightarrow> json option list" where
  "element_refs j =
     (case jget ''sourceUnit'' j of
        None \<Rightarrow> []
      | Some s \<Rightarrow>
          (case jget ''destinationUnit'' j of
             None \<Rightarrow> []
           | Some d \<Rightarrow> [jget ''$ref'' s, jget ''$ref'' d]))"

definition element_ids :: "json list \<Rightarrow> json option list" where
  "element_ids js = map (jget ''$id'') (filter is_node_element js)"

definition resolves :: "env \<Rightarrow> node list \<Rightarrow> connection \<Rightarrow> bool" where
  "resolves e ns c \<longleftrightarrow> source_unit_id c \<in> unit_id e ` set ns
     \<and> destination_unit_id c \<in> unit_id e ` set ns"

fun method_outputs :: "env \<Rightarrow> method_info list \<Rightarrow> generator \<Rightarrow> (node list \<times> connection list) list" where
  "method_outputs e [] g = []"
| "method_outputs e (meth # rest) g =
     (case process_method e g meth of
        Inl err \<Rightarrow> []
      | Inr (out, g1) \<Rightarrow>
          out # method_outputs e rest
                  (g1\<lparr>self_nodes := self_nodes g1 @ fst out,
                      self_connections := self_connections g1 @ snd out\<rparr>))"

section \<open>Erasing the tokens\<close>

text \<open>
  \<open>erase_node\<close> and \<open>erase_connection\<close> blank the generated token and the unit
  identifiers derived from tokens; \<open>counters\<close> are the attributes of the generator on which
  layout and token numbering depend.
\<close>

definition erase_node :: "node \<Rightarrow> node" where
  "erase_node n = n\<lparr>guid := []\<rparr>"

definition erase_connection :: "connection \<Rightarrow> connection" where
  "erase_connection c = c\<lparr>conn_guid := [], source_unit_id := [], destination_unit_id := []\<rparr>"

definition counters :: "generator \<Rightarrow> int \<times> int \<times> nat" where
  "counters g = (position_x g, position_y g, uuid_calls g)"

definition node_counters :: "int \<times> int \<times> nat \<Rightarrow> int \<times> int \<times> nat" where
  "node_counters c =
     (case c of (x, y, u) \<Rightarrow> if x + 250 > 1000 then (0, y + 150, Suc u) else (x + 250, y, Suc u))"

definition connection_counters :: "int \<times> int \<times> nat \<Rightarrow> int \<times> int \<times> nat" where
  "connection_counters c = (case c of (x, y, u) \<Rightarrow> (x, y, Suc u))"

definition event_like :: "node option \<Rightarrow> bool" where
  "event_like ev = (case ev of None \<Rightarrow> True | Some v \<Rightarrow> \<not> is_construct v)"

definition sim :: "node option \<Rightarrow> node option \<Rightarrow> locals \<Rightarrow> locals \<Rightarrow> bool" where
  "sim ev1 ev2 st1 st2 \<longleftrightarrow>
     counters (self st1) = counters (self st2)
     \<and> map erase_node (nodes st1) = map erase_node (nodes st2)
     \<and> map erase_connection (connections st1) = map erase_connection (connections st2)
     \<and> ((last_node st1 = None) = (last_node st2 = None))
     \<and> ((last_node st1 = ev1) = (last_node st2 = ev2))"

definition category_count :: "node list \<Rightarrow> NodeType \<Rightarrow> nat" where
  "category_count ns k = length (filter (\<lambda>c. c = k) (map category ns))"

definition same_structure :: "node list \<times> connection list \<Rightarrow> node list \<times> connection list \<Rightarrow> bool" where
  "same_structure a b \<longleftrightarrow>
     map erase_node (fst a) = map erase_node (fst b)
     \<and> map erase_connection (snd a) = map erase_connection (snd b)
     \<and> length (fst a) = length (fst b)
     \<and> length (snd a) = length (snd b)
     \<and> map (category_count (fst a))
           [EVENT, FLOW, DATA, INVOKE, GET_MEMBER, SET_MEMBER, VARIABLE, OPERATOR]
       = map (category_count (fst b))
           [EVENT, FLOW, DATA, INVOKE, GET_MEMBER, SET_MEMBER, VARIABLE, OPERATOR]"

definition generator_graph :: "generator \<Rightarrow> node list \<times> connection list" where
  "generator_graph g = (self_nodes g, self_connections g)"

definition generators_alike :: "generator \<Rightarrow> generator \<Rightarrow> bool" where
  "generators_alike g1 g2 \<longleftrightarrow> counters g1 = counters g2
     \<and> same_structure (generator_graph g1) (generator_graph g2)"

definition token_keys :: "string list" where
  "token_keys = [''guid'', ''$id'', ''sourceUnit'', ''destinationUnit'']"

fun erase_element :: "json \<Rightarrow> json" where
  "erase_element (JDict kv) =
     JDict (map (\<lambda>(k, v). if k \<in> set token_keys then (k, JNone) else (k, v)) kv)"
| "erase_element j = j"

text \<open>
  Blanking the unit references forgets which node a connection joins. \<open>joins e ns c j k\<close>
  says that connection \<open>c\<close> leads from the \<open>j\<close>-th to the \<open>k\<close>-th node of \<open>ns\<close>, and two
  connections are \<open>wired_alike\<close> when they join nodes at the same two places of their node
  lists; \<open>same_references\<close> is the same for the serialised elements, where a \<^verbatim>\<open>$ref\<close> of a
  connection element designates the node element with that \<^verbatim>\<open>$id\<close>.
\<close>

definition joins :: "env \<Rightarrow> node list \<Rightarrow> connection \<Rightarrow> nat \<Rightarrow> nat \<Rightarrow> bool" where
  "joins e ns c j k \<longleftrightarrow> j < length ns \<and> k < length ns
     \<and> source_unit_id c = unit_id e (ns ! j) \<and> destination_unit_id c = unit_id e (ns ! k)"

definition wired_alike :: "env \<Rightarrow> env \<Rightarrow> node list \<Rightarrow> node list \<Rightarrow> connection \<Rightarrow> connection \<Rightarrow> bool" where
  "wired_alike e1 e2 ns1 ns2 c1 c2 \<longleftrightarrow>
     list_ex (\<lambda>j. list_ex (\<lambda>k. joins e1 ns1 c1 j k \<and> joins e2 ns2 c2 j k) [0..<length ns1])
       [0..<length ns1]"

definition same_wiring :: "env \<Rightarrow> env \<Rightarrow> node list \<times> connection list \<Rightarrow>
    node list \<times> connection list \<Rightarrow> bool" where
  "same_wiring e1 e2 a b \<longleftrightarrow> list_all2 (wired_alike e1 e2 (fst a) (fst b)) (snd a) (snd b)"

definition refers_alike :: "json list \<Rightarrow> json list \<Rightarrow> json option \<Rightarrow> json option \<Rightarrow> bool" where
  "refers_alike xs ys r s \<longleftrightarrow>
     list_ex (\<lambda>j. j < length ys \<and> is_node_element (xs ! j) \<and> is_node_element (ys ! j)
                \<and> jget ''$id'' (xs ! j) = r \<and> jget ''$id'' (ys ! j) = s) [0..<length xs]"

definition same_references :: "json list \<Rightarrow> json list \<Rightarrow> bool" where
  "same_references xs ys \<longleftrightarrow>
     list_all2 (\<lambda>x y. list_all2 (refers_alike xs ys) (element_refs x) (element_refs y)) xs ys"

definition same_document :: "string \<Rightarrow> env \<Rightarrow> env \<Rightarrow> json \<times> generator \<Rightarrow>
    json \<times> generator \<Rightarrow> bool" where
  "same_document cs_code e1 e2 r1 r2 \<longleftrightarrow>
     same_structure (generator_graph (snd r1)) (generator_graph (snd r2))
     \<and> same_wiring e1 e2 (generator_graph (snd r1)) (generator_graph (snd r2))
     \<and> map erase_element (document_elements (fst r1))
         = map erase_element (document_elements (fst r2))
     \<and> same_references (document_elements (fst r1)) (document_elements (fst r2))
     \<and> fst r1 = graph_document (CSharpParser cs_code) (document_elements (fst r1))
     \<and> fst r2 = graph_document (CSharpParser cs_code) (document_elements (fst r2))"

text \<open>
  The relation kept between the local variables of two runs of \<^verbatim>\<open>_process_method\<close>: the
  node lists are equally long, the connections are wired alike, the cursors stand at the same
  place, the event node is the first node, and the nodes \<open>tr\<close> that a step holds in local
  variables stand at the same places of the two node lists.
\<close>

definition located :: "node list \<Rightarrow> node list \<Rightarrow> node \<Rightarrow> node \<Rightarrow> bool" where
  "located ns1 ns2 a b \<longleftrightarrow> (\<exists>j. j < length ns1 \<and> j < length ns2 \<and> ns1 ! j = a \<and> ns2 ! j = b)"

definition fixed_head :: "node option \<Rightarrow> node list \<Rightarrow> bool" where
  "fixed_head ev ns \<longleftrightarrow> (case ev of None \<Rightarrow> True | Some v \<Rightarrow> ns \<noteq> [] \<and> ns ! 0 = v)"

definition aligned :: "env \<Rightarrow> env \<Rightarrow> node option \<Rightarrow> node option \<Rightarrow> (node \<times> node) list \<Rightarrow>
    locals \<Rightarrow> locals \<Rightarrow> bool" where
  "aligned e1 e2 ev1 ev2 tr st1 st2 \<longleftrightarrow>
     length (nodes st1) = length (nodes st2)
     \<and> list_all2 (wired_alike e1 e2 (nodes st1) (nodes st2)) (connections st1) (connections st2)
     \<and> list_all (\<lambda>(a, b). located (nodes st1) (nodes st2) a b) tr
     \<and> rel_option (located (nodes st1) (nodes st2)) (last_node st1) (last_node st2)
     \<and> fixed_head ev1 (nodes st1) \<and> fixed_head ev2 (nodes st2)"

section \<open>Sample inputs\<close>

text \<open>
  A deterministic environment (the \<open>n\<close>-th token is \<open>n + 1\<close> letters long and the hash
  of a string is its length, so unit identifiers are distinct) and the methods used below.
\<close>

definition demo_env :: env where
  "demo_env = \<lparr>uuid4 = (\<lambda>n. replicate (Suc n) CHR ''u''), hash = (\<lambda>s. int (length s))\<rparr>"

definition start_method :: method_info where
  "start_method = \<lparr>method_name = ''Start'', body = ''{ if (a) b = 1; }'', comments = ''Runs once''\<rparr>"



definition update_method :: method_info where
  "update_method = \<lparr>method_name = ''Update'', body = ''{ if (a > 1) { } }'', comments = []\<rparr>"

definition switch_method :: method_info where
  "switch_method = \<lparr>method_name = ''Update'',
     body = ''{ switch (m) { case 1: a(); break; case 2: b(); break; } }'', comments = []\<rparr>"

definition superscript_bound_method :: method_info where
  "superscript_bound_method = \<lparr>method_name = ''Update'',
     body = ''{ for (int i = 0; i < '' @ [CHR 0xB2] @ ''; i++) { } }'', comments = []\<rparr>"

definition superscript_source :: string where
  "superscript_source =
     ''class Player : MonoBehaviour { void Start() { for (int i = '' @ [CHR 0xB2]
       @ ''; i < 5; i++) { } } }''"

definition demo_parser :: csharp_parser where
  "demo_parser = \<lparr>class_name = Some ''Player'', methods = [start_method, update_method]\<rparr>"



definition node_summary :: "node \<Rightarrow> string \<times> string list" where
  "node_summary n = (node_type n, map name (ports n))"

section \<open>Evaluation without local bindings\<close>

text \<open>
  The steps once more, with every local binding turned into the argument of an auxiliary
  function. The lemmas \<open>for_step_code\<close> to \<open>call_step_code\<close> below prove them equal to the
  definitions above; they serve the evaluation of the steps at concrete inputs.
\<close>

fun wire_construct :: "env \<Rightarrow> node option \<Rightarrow> (node \<Rightarrow> locals \<Rightarrow> locals) \<Rightarrow> node \<times> locals \<Rightarrow> locals" where
  "wire_construct e ev extra (n, st1) = (extra n (connect_last e ev n st1))\<lparr>last_node := Some n\<rparr>"

fun connect_value :: "env \<Rightarrow> string \<Rightarrow> node \<Rightarrow> string \<Rightarrow> node \<times> locals \<Rightarrow> locals" where
  "connect_value e skey dest dkey (n, st1) = append_connection e n skey dest dkey False st1"

fun for_wire3 :: "env \<Rightarrow> node option \<Rightarrow> node \<Rightarrow> node \<Rightarrow> node \<times> locals \<Rightarrow> locals" where
  "for_wire3 e ev for_node start_literal (end_literal, st3) =
     (append_connection e end_literal ''output'' for_node ''%lastIndex'' False
        (append_connection e start_literal ''output'' for_node ''%firstIndex'' False
           (connect_last e ev for_node st3)))\<lparr>last_node := Some for_node\<rparr>"

fun for_wire2 :: "env \<Rightarrow> node option \<Rightarrow> int \<Rightarrow> node \<Rightarrow> node \<times> locals \<Rightarrow> locals" where
  "for_wire2 e ev end_int for_node (start_literal, st2) =
     for_wire3 e ev for_node start_literal
       (append_node (create_literal_node e (JInt end_int) ''int'') st2)"

fun for_wire :: "env \<Rightarrow> node option \<Rightarrow> int \<Rightarrow> int \<Rightarrow> node \<times> locals \<Rightarrow> locals" where
  "for_wire e ev start_int end_int (for_node, st1) =
     for_wire2 e ev end_int for_node
       (append_node (create_literal_node e (JInt start_int) ''int'') st1)"

fun accumulate :: "env \<Rightarrow> method_info list
    \<Rightarrow> error + ((node list \<times> connection list) \<times> generator) \<Rightarrow> error + generator" where
  "accumulate e rest (Inl err) = Inl err"
| "accumulate e rest (Inr ((method_nodes, method_connections), self1)) =
     process_methods e rest
       (self1\<lparr>self_nodes := self_nodes self1 @ method_nodes,
              self_connections := self_connections self1 @ method_connections\<rparr>)"

fun assemble :: "env \<Rightarrow> csharp_parser \<Rightarrow> error + generator \<Rightarrow> error + (json \<times> generator)" where
  "assemble e parser (Inl err) = Inl err"
| "assemble e parser (Inr self1) =
     Inr (graph_document parser
            (map (node_to_dict e) (self_nodes self1)
             @ map connection_to_dict (self_connections self1)), self1)"

fun collect_outputs :: "env \<Rightarrow> method_info list
    \<Rightarrow> error + ((node list \<times> connection list) \<times> generator)
    \<Rightarrow> (node list \<times> connection list) list" where
  "collect_outputs e rest (Inl err) = []"
| "collect_outputs e rest (Inr (out, g1)) =
     out # method_outputs e rest
             (g1\<lparr>self_nodes := self_nodes g1 @ fst out,
                 self_connections := self_connections g1 @ snd out\<rparr>)"

section \<open>Facts about the constructors\<close>

lemma Node_fields [simp]:
  "node_type (fst (Node e typ cat ps dv mi g)) = typ"
  "category (fst (Node e typ cat ps dv mi g)) = cat"
  "ports (fst (Node e typ cat ps dv mi g)) = ps"
  "default_values (fst (Node e typ cat ps dv mi g)) = dv"
  "member_info (fst (Node e typ cat ps dv mi g)) = mi"
  "description (fst (Node e typ cat ps dv mi g)) = None"
  "guid (fst (Node e typ cat ps dv mi g)) = uuid4 e (uuid_calls g)"
  by (simp_all add: Node_def new_guid_def next_position_def Let_def split_def)

lemma generator_frame [simp]:
  "self_nodes (snd (Node e typ cat ps dv mi g)) = self_nodes g"
  "self_connections (snd (Node e typ cat ps dv mi g)) = self_connections g"
  "self_nodes (snd (create_connection e a k b k' ctl g)) = self_nodes g"
  "self_connections (snd (create_connection e a k b k' ctl g)) = self_connections g"
  by (simp_all add: Node_def create_connection_def new_guid_def next_position_def Let_def
        split_def)

lemma create_connection_fields [simp]:
  "source_unit_id (fst (create_connection e a k b k' ctl g)) = unit_id e a"
  "source_key (fst (create_connection e a k b k' ctl g)) = k"
  "destination_unit_id (fst (create_connection e a k b k' ctl g)) = unit_id e b"
  "destination_key (fst (create_connection e a k b k' ctl g)) = k'"
  "is_control (fst (create_connection e a k b k' ctl g)) = ctl"
  by (simp_all add: create_connection_def new_guid_def is_control_def Let_def split_def)

lemma edge_create_connection [simp]:
  "edge (fst (create_connection e a k b k' ctl g)) = (unit_id e a, k, unit_id e b, k')"
  by (simp add: edge_def)

lemma append_node_eq:
  "append_node mk st =
     (fst (mk (self st)), st\<lparr>self := snd (mk (self st)), nodes := nodes st @ [fst (mk (self st))]\<rparr>)"
  by (simp add: append_node_def split_def Let_def)

lemma append_connection_fields [simp]:
  "nodes (append_connection e a k b k' ctl st) = nodes st"
  "last_node (append_connection e a k b k' ctl st) = last_node st"
  "connections (append_connection e a k b k' ctl st) =
     connections st @ [fst (create_connection e a k b k' ctl (self st))]"
  "self (append_connection e a k b k' ctl st) = snd (create_connection e a k b k' ctl (self st))"
  by (simp_all add: append_connection_def split_def Let_def)

lemma connect_last_fields [simp]:
  "nodes (connect_last e ev d st) = nodes st"
  "last_node (connect_last e ev d st) = last_node st"
  "connections (connect_last e ev d st) =
     connections st @ cursor_conns e ev (last_node st) d (self st)"
  by (simp_all add: connect_last_def cursor_conns_def split: option.splits)

lemma connect_last_frame [simp]:
  "self_nodes (self (connect_last e ev d st)) = self_nodes (self st)"
  "self_connections (self (connect_last e ev d st)) = self_connections (self st)"
  by (simp_all add: connect_last_def append_connection_def split_def Let_def split: option.splits)

lemma cursor_conns_facts [simp]:
  "filter is_control (cursor_conns e ev lst d g) = cursor_conns e ev lst d g"
  "map edge (cursor_conns e ev lst d g) = cursor_edges e ev lst d"
  "list_all (feeds e d aux) (cursor_conns e ev lst d g)"
  by (simp_all add: cursor_conns_def cursor_edges_def feeds_def split: option.splits)

section \<open>The wiring invariant\<close>

lemma chain_snoc:
  "chain e cur (cs @ [c]) =
     chain e cur cs @
     (case (if cs = [] then cur else Some (last cs, ''exit'')) of
        None \<Rightarrow> []
      | Some (p, k) \<Rightarrow> [(unit_id e p, k, unit_id e c, ''enter'')])"
  by (induction cs arbitrary: cur) auto

lemma last_filter_construct:
  "filter is_construct ns \<noteq> [] \<Longrightarrow> is_construct (last (filter is_construct ns))"
  using last_in_set [of "filter is_construct ns"] by auto

lemma cursor_edges_chain:
  assumes "case ev of None \<Rightarrow> True | Some v \<Rightarrow> \<not> is_construct v"
  shows "cursor_edges e ev (cursor ev (filter is_construct ns)) d =
     (case (if filter is_construct ns = [] then trigger_of ev
            else Some (last (filter is_construct ns), ''exit'')) of
        None \<Rightarrow> []
      | Some (p, k) \<Rightarrow> [(unit_id e p, k, unit_id e d, ''enter'')])"
  using assms last_filter_construct [of ns]
  by (auto simp: cursor_edges_def cursor_def trigger_of_def split: option.splits)

lemma cursor_edges_ends:
  assumes "x \<in> set (cursor_edges e ev (cursor ev (filter is_construct ns)) d)"
    and "case ev of None \<Rightarrow> True | Some v \<Rightarrow> v \<in> set ns"
  shows "fst x \<in> unit_id e ` set ns \<and> fst (snd (snd x)) = unit_id e d"
proof -
  have "filter is_construct ns \<noteq> [] \<Longrightarrow> last (filter is_construct ns) \<in> set ns"
    using last_in_set [of "filter is_construct ns"] by auto
  then show ?thesis
    using assms
    by (auto simp: cursor_edges_def cursor_def split: option.splits if_splits)
qed

lemma wired_emit:
  assumes w: "wired e ev st"
    and main: "is_construct main" and aux: "\<forall>a \<in> set aux. \<not> is_construct a"
    and ns: "nodes st' = nodes st @ main # aux"
    and cs: "connections st' = connections st @ new"
    and ctl: "map edge (filter is_control new) = cursor_edges e ev (last_node st) main"
    and vs: "\<forall>v \<in> set new. feeds e main aux v"
    and last: "last_node st' = Some main"
  shows "wired e ev st'"
proof -
  let ?cons = "filter is_construct (nodes st)"
  have ev: "case ev of None \<Rightarrow> True | Some v \<Rightarrow> \<not> is_construct v"
    and evin: "case ev of None \<Rightarrow> True | Some v \<Rightarrow> v \<in> set (nodes st)"
    and lst: "last_node st = cursor ev ?cons"
    and ch: "map edge (filter is_control (connections st)) = chain e (trigger_of ev) ?cons"
    and ends: "\<forall>c \<in> set (connections st). source_unit_id c \<in> unit_id e ` set (nodes st) \<and>
        destination_unit_id c \<in> unit_id e ` set ?cons"
    using w by (auto simp: wired_def split: option.splits)
  have cons': "filter is_construct (nodes st') = ?cons @ [main]"
    using main aux ns by simp
  have 1: "case ev of None \<Rightarrow> True | Some v \<Rightarrow> \<not> is_construct v \<and> v \<in> set (nodes st')"
    using ev evin ns by (auto split: option.splits)
  have 2: "last_node st' = cursor ev (filter is_construct (nodes st'))"
    using last cons' by (simp add: cursor_def)
  have 3: "map edge (filter is_control (connections st')) =
      chain e (trigger_of ev) (filter is_construct (nodes st'))"
    unfolding cons' chain_snoc cs
    using ch ctl lst cursor_edges_chain [OF ev, of e "nodes st" main] by simp
  have 4: "\<forall>c \<in> set (connections st'). source_unit_id c \<in> unit_id e ` set (nodes st') \<and>
        destination_unit_id c \<in> unit_id e ` set (filter is_construct (nodes st'))"
  proof
    fix c assume "c \<in> set (connections st')"
    then consider "c \<in> set (connections st)" | "c \<in> set new" "is_control c"
      | "c \<in> set new" "\<not> is_control c"
      using cs by auto
    then show "source_unit_id c \<in> unit_id e ` set (nodes st') \<and>
        destination_unit_id c \<in> unit_id e ` set (filter is_construct (nodes st'))"
    proof cases
      case 1 then show ?thesis using ends ns cons' by auto
    next
      case 2
      then have "edge c \<in> set (map edge (filter is_control new))"
        by simp
      then have "edge c \<in> set (cursor_edges e ev (cursor ev ?cons) main)"
        using ctl lst by simp
      from cursor_edges_ends [OF this evin] show ?thesis
        using ns cons' by (auto simp: edge_def)
    next
      case 3 then show ?thesis using vs ns cons' by (auto simp: feeds_def)
    qed
  qed
  show ?thesis unfolding wired_def using 1 2 3 4 by simp
qed

lemma emits_shape:
  assumes "emits e ev k st st'"
  obtains main aux new where
    "nodes st' = nodes st @ main # aux" "connections st' = connections st @ new"
    "is_construct main" "rank main = k" "list_all is_auxiliary aux"
    "map edge (filter is_control new) = cursor_edges e ev (last_node st) main"
    "list_all (feeds e main aux) new" "last_node st' = Some main"
    "self_nodes (self st') = self_nodes (self st)"
    "self_connections (self st') = self_connections (self st)"
proof -
  let ?n0 = "length (nodes st)"
  have a: "take ?n0 (nodes st') = nodes st" "?n0 < length (nodes st')"
    "take (length (connections st)) (connections st') = connections st"
    using assms by (simp_all add: emits_def Let_def)
  have "nodes st' = take ?n0 (nodes st') @ (nodes st' ! ?n0) # drop (Suc ?n0) (nodes st')"
    using a(2) by (simp add: id_take_nth_drop)
  then have n: "nodes st' = nodes st @ (nodes st' ! ?n0) # drop (Suc ?n0) (nodes st')"
    using a(1) by simp
  have "connections st' = take (length (connections st)) (connections st')
          @ drop (length (connections st)) (connections st')"
    by simp
  then have c: "connections st' = connections st @ drop (length (connections st)) (connections st')"
    using a(3) by simp
  show ?thesis
    using that [OF n c] assms by (simp add: emits_def Let_def)
qed

lemma emits_wired: "emits e ev k st st' \<Longrightarrow> wired e ev st \<Longrightarrow> wired e ev st'"
  by (erule emits_shape, rule wired_emit)
     (auto simp: list_all_iff is_auxiliary_def)

section \<open>Every translation step emits one construct\<close>

lemma construct_facts [simp]:
  "is_construct (fst (create_for_node e g))" "rank (fst (create_for_node e g)) = 0"
  "is_construct (fst (create_while_node e g))" "rank (fst (create_while_node e g)) = 1"
  "is_construct (fst (create_foreach_node e ct g))" "rank (fst (create_foreach_node e ct g)) = 2"
  "is_construct (fst (create_switch_node e k g))" "rank (fst (create_switch_node e k g)) = 3"
  "is_construct (fst (create_if_node e g))" "rank (fst (create_if_node e g)) = 5"
  "is_construct (fst (create_set_variable_node e vn vt g))"
  "rank (fst (create_set_variable_node e vn vt g)) = 6"
  "is_construct (fst (create_yield_return_node e g))"
  "rank (fst (create_yield_return_node e g)) = 7"
  by (simp_all add: is_construct_def rank_def Port_def create_for_node_def create_while_node_def
        create_foreach_node_def create_switch_node_def create_if_node_def
        create_set_variable_node_def create_yield_return_node_def)

lemma creator_frame [simp]:
  "self_nodes (snd (create_event_node e en g)) = self_nodes g"
  "self_connections (snd (create_event_node e en g)) = self_connections g"
  "self_nodes (snd (create_for_node e g)) = self_nodes g"
  "self_connections (snd (create_for_node e g)) = self_connections g"
  "self_nodes (snd (create_while_node e g)) = self_nodes g"
  "self_connections (snd (create_while_node e g)) = self_connections g"
  "self_nodes (snd (create_foreach_node e ct g)) = self_nodes g"
  "self_connections (snd (create_foreach_node e ct g)) = self_connections g"
  "self_nodes (snd (create_switch_node e k g)) = self_nodes g"
  "self_connections (snd (create_switch_node e k g)) = self_connections g"
  "self_nodes (snd (create_invoke_node e mn tt ps rt g)) = self_nodes g"
  "self_connections (snd (create_invoke_node e mn tt ps rt g)) = self_connections g"
  "self_nodes (snd (create_literal_node e v vt g)) = self_nodes g"
  "self_connections (snd (create_literal_node e v vt g)) = self_connections g"
  "self_nodes (snd (create_if_node e g)) = self_nodes g"
  "self_connections (snd (create_if_node e g)) = self_connections g"
  "self_nodes (snd (create_comparison_node e op g)) = self_nodes g"
  "self_connections (snd (create_comparison_node e op g)) = self_connections g"
  "self_nodes (snd (create_set_variable_node e vn vt g)) = self_nodes g"
  "self_connections (snd (create_set_variable_node e vn vt g)) = self_connections g"
  "self_nodes (snd (create_arithmetic_node e op g)) = self_nodes g"
  "self_connections (snd (create_arithmetic_node e op g)) = self_connections g"
  "self_nodes (snd (create_yield_return_node e g)) = self_nodes g"
  "self_connections (snd (create_yield_return_node e g)) = self_connections g"
  "self_nodes (snd (create_wait_for_seconds_node e secs g)) = self_nodes g"
  "self_connections (snd (create_wait_for_seconds_node e secs g)) = self_connections g"
  "self_nodes (snd (create_custom_invoke_node e mn tt ps rt stc g)) = self_nodes g"
  "self_connections (snd (create_custom_invoke_node e mn tt ps rt stc g)) = self_connections g"
  by (simp_all add: create_event_node_def create_for_node_def create_while_node_def
        create_foreach_node_def create_switch_node_def create_invoke_node_def
        create_literal_node_def create_if_node_def create_comparison_node_def
        create_set_variable_node_def create_arithmetic_node_def create_yield_return_node_def
        create_wait_for_seconds_node_def create_custom_invoke_node_def Let_def)

lemma invoke_facts [simp]:
  "is_construct (fst (create_invoke_node e mn tt ps rt g))"
  "is_construct (fst (create_custom_invoke_node e mn tt ps rt st g))"
  "rank (fst (create_custom_invoke_node e mn tt ps rt False g)) = 8"
  by (simp_all add: is_construct_def rank_def Port_def create_invoke_node_def
        create_custom_invoke_node_def)
lemma debug_invoke_rank [simp]:
  "rank (fst (create_invoke_node e mn tt
      [\<lparr>param_type = ''System.Object'', param_name = ''message''\<rparr>] None g)) = 4"
  by (simp add: rank_def Port_def create_invoke_node_def str_nat.simps)
lemma comparison_type:
  "dict_get comparison_map op ''Unity.VisualScripting.GenericEqual'' \<noteq> ''Unity.VisualScripting.For''"
  "dict_get comparison_map op ''Unity.VisualScripting.GenericEqual'' \<noteq> ''Unity.VisualScripting.If''"
  by (simp_all add: dict_get_def comparison_map_def)

lemma arithmetic_type:
  "fst (dict_get arithmetic_map op (''Unity.VisualScripting.GenericAdd'', ''Add''))
     \<noteq> ''Unity.VisualScripting.For''"
  "fst (dict_get arithmetic_map op (''Unity.VisualScripting.GenericAdd'', ''Add''))
     \<noteq> ''Unity.VisualScripting.If''"
  by (simp_all add: dict_get_def arithmetic_map_def)

lemma auxiliary_facts [simp]:
  "is_auxiliary (fst (create_literal_node e v vt g))"
  "is_auxiliary (fst (create_comparison_node e op g))"
  "is_auxiliary (fst (create_arithmetic_node e op g))"
  "is_auxiliary (fst (create_wait_for_seconds_node e secs g))"
  by (simp_all add: is_auxiliary_def is_construct_def Port_def create_literal_node_def
        create_comparison_node_def create_arithmetic_node_def create_wait_for_seconds_node_def
        comparison_type arithmetic_type Let_def)

lemmas emit_simps = emits_def append_node_eq Let_def feeds_def

lemma for_step_emits:
  assumes "for_step e ev st m = Inr st'"
  shows "emits e ev 0 st st'"
proof (cases "if isdigit (strip (group_of m 2)) then py_int (strip (group_of m 2)) else Inr 0")
  case (Inl err)
  then show ?thesis
    using assms by (simp add: for_step_def Let_def split_def)
next
  case start: (Inr a)
  show ?thesis
  proof (cases "if isdigit (strip (group_of m 4)) then py_int (strip (group_of m 4)) else Inr 10")
    case (Inl err)
    then show ?thesis
      using start assms by (simp add: for_step_def Let_def split_def)
  next
    case (Inr b)
    from Inr start assms show ?thesis
      by (auto simp: emit_simps for_step_def)
  qed
qed

lemma while_step_emits: "emits e ev 1 st (while_step e ev st m)"
  by (simp add: emit_simps while_step_def)

lemma foreach_step_emits: "emits e ev 2 st (foreach_step e ev st m)"
  by (simp add: emit_simps foreach_step_def)

lemma switch_step_emits: "emits e ev 3 st (switch_step e ev b st m)"
  by (simp add: emit_simps switch_step_def)

lemma debug_log_step_emits: "emits e ev 4 st (debug_log_step e ev st m)"
proof (cases "startswith (strip (group_of m 1)) [CHR 0x22]")
  case False
  then show ?thesis by (simp add: emit_simps debug_log_step_def)
next
  case quoted: True
  show ?thesis
  proof (cases "endswith (strip (group_of m 1)) [CHR 0x22]")
    case False
    then show ?thesis using quoted by (simp add: emit_simps debug_log_step_def)
  next
    case True
    then show ?thesis using quoted by (simp add: emit_simps debug_log_step_def)
  qed
qed

lemma if_step_emits: "emits e ev 5 st (if_step e ev st m)"
proof (cases "find (\<lambda>op. contains op (strip (group_of m 1))) comparison_ops")
  case None
  then show ?thesis by (simp add: emit_simps if_step_def)
next
  case (Some op)
  then show ?thesis by (simp add: emit_simps if_step_def)
qed

lemma assignment_step_emits: "emits e ev 6 st (assignment_step e ev st m)"
proof (cases "find (\<lambda>op. contains op (strip (group_of m 2))
    \<and> \<not> startswith (strip (group_of m 2)) [CHR 0x22]) arithmetic_ops")
  case None
  then show ?thesis by (simp add: emit_simps assignment_step_def)
next
  case (Some op)
  then show ?thesis by (simp add: emit_simps assignment_step_def)
qed

lemma yield_step_emits: "emits e ev 7 st (yield_step e ev st m)"
proof (cases "m_group m 2")
  case None
  then show ?thesis by (simp add: emit_simps yield_step_def)
next
  case (Some args)
  show ?thesis
  proof (cases "group_of m 1 = ''WaitForSeconds''")
    case False
    then show ?thesis using Some by (simp add: emit_simps yield_step_def)
  next
    case wait: True
    show ?thesis
    proof (cases "args = []")
      case True
      then show ?thesis using Some by (simp add: emit_simps yield_step_def)
    next
      case False
      show ?thesis
      proof (cases "py_float (strip args)")
        case (Inl err)
        then show ?thesis using wait False Some by (simp add: emit_simps yield_step_def)
      next
        case (Inr seconds)
        then show ?thesis using wait False Some by (simp add: emit_simps yield_step_def)
      qed
    qed
  qed
qed

lemma call_step_emits:
  "call_step e ev b st m = st \<or> emits e ev 8 st (call_step e ev b st m)"
proof (cases "(group_of m 1 = ''Debug'' \<and> group_of m 2 = ''Log'')
    \<or> CHR ''='' \<in> set (last_line (drop (m_start m - 20) (take (m_start m) b)))")
  case True
  then have "call_step e ev b st m = st"
    by (auto simp: call_step_def Let_def)
  then show ?thesis by simp
next
  case False
  then have "emits e ev 8 st (call_step e ev b st m)"
    by (simp add: emit_simps call_step_def)
  then show ?thesis by simp
qed

section \<open>The translation of a method as a run\<close>

lemma run_append:
  "run e ev ks' st' st'' \<Longrightarrow> run e ev ks st st' \<Longrightarrow> run e ev (ks @ ks') st st''"
proof (induction rule: run.induct)
  case (run_nil st)
  then show ?case by simp
next
  case (run_snoc ks' st' st'' k st''')
  then have "run e ev ((ks @ ks') @ [k]) st st'''"
    by (intro run.run_snoc) auto
  then show ?case by simp
qed

lemma run_single: "emits e ev k st st' \<Longrightarrow> run e ev [k] st st'"
  using run.run_snoc [OF run.run_nil] by fastforce

lemma foldl_run:
  assumes "\<And>st m. emits e ev k st (f st m)"
  shows "run e ev (replicate (length ms) k) st (foldl f st ms)"
proof (induction ms rule: rev_induct)
  case Nil
  show ?case by (simp add: run.run_nil)
next
  case (snoc m ms)
  have "run e ev (replicate (length ms) k @ [k]) st (f (foldl f st ms) m)"
    using snoc assms by (intro run.run_snoc)
  then show ?case by (simp add: replicate_append_same)
qed

lemma foldl_run_skip:
  assumes "\<And>st m. f st m = st \<or> emits e ev k st (f st m)"
  shows "\<exists>c \<le> length ms. run e ev (replicate c k) st (foldl f st ms)"
proof (induction ms rule: rev_induct)
  case Nil
  show ?case by (simp add: run.run_nil)
next
  case (snoc m ms)
  then obtain c where c: "c \<le> length ms" "run e ev (replicate c k) st (foldl f st ms)"
    by blast
  show ?case
  proof (cases "f (foldl f st ms) m = foldl f st ms")
    case True
    then show ?thesis using c by (intro exI [of _ c]) simp
  next
    case False
    then have "emits e ev k (foldl f st ms) (f (foldl f st ms) m)"
      using assms by blast
    then have "run e ev (replicate c k @ [k]) st (f (foldl f st ms) m)"
      using c by (intro run.run_snoc)
    then show ?thesis
      using c by (intro exI [of _ "Suc c"]) (simp add: replicate_append_same)
  qed
qed

lemma run_steps_run:
  assumes "\<And>st m st'. f st m = Inr st' \<Longrightarrow> emits e ev k st st'"
    and "run_steps f ms st = Inr st'"
  shows "run e ev (replicate (length ms) k) st st'"
  using assms(2)
proof (induction ms arbitrary: st)
  case Nil
  then show ?case by (simp add: run.run_nil)
next
  case (Cons m ms)
  then obtain s1 where s1: "f st m = Inr s1" "run_steps f ms s1 = Inr st'"
    by (auto split: sum.splits)
  have "run e ev ([k] @ replicate (length ms) k) st st'"
    using run_append [OF Cons.IH [OF s1(2)] run_single [OF assms(1) [OF s1(1)]]] .
  then show ?case by simp
qed

lemma process_method_run:
  assumes "process_method e g meth = Inr ((ns, cs), g')"
  shows "\<exists>st calls. calls \<le> length (finditer method_call_pattern (body meth))
     \<and> run e (event_of e g meth) (categories (body meth) calls) (start_state e g meth) st
     \<and> ns = attach_description meth (event_of e g meth) (nodes st)
     \<and> cs = connections st \<and> g' = self st"
proof -
  let ?ev = "event_of e g meth" and ?b = "body meth"
  obtain st2 where st2: "run_steps (for_step e ?ev) (finditer for_pattern ?b) (start_state e g meth) = Inr st2"
    using assms
    by (auto simp: process_method_def event_of_def start_state_def append_node_eq Let_def
          split: sum.splits if_splits)
  define st3 where "st3 = foldl (while_step e ?ev) st2 (finditer while_pattern ?b)"
  define st4 where "st4 = foldl (foreach_step e ?ev) st3 (finditer foreach_pattern ?b)"
  define st5 where "st5 = foldl (switch_step e ?ev ?b) st4 (finditer switch_pattern ?b)"
  define st6 where "st6 = foldl (debug_log_step e ?ev) st5 (finditer debug_log_pattern ?b)"
  define st7 where "st7 = foldl (if_step e ?ev) st6 (finditer if_pattern ?b)"
  define st8 where "st8 = foldl (assignment_step e ?ev) st7 (finditer assignment_pattern ?b)"
  define st9 where "st9 = foldl (yield_step e ?ev) st8 (finditer yield_pattern ?b)"
  define st10 where "st10 = foldl (call_step e ?ev ?b) st9 (finditer method_call_pattern ?b)"
  have res: "ns = attach_description meth ?ev (nodes st10)" "cs = connections st10" "g' = self st10"
    using assms st2
    by (auto simp: process_method_def event_of_def start_state_def append_node_eq Let_def
          st3_def st4_def st5_def st6_def st7_def st8_def st9_def st10_def
          split: sum.splits if_splits)
  have r2: "run e ?ev (replicate (length (finditer for_pattern ?b)) 0) (start_state e g meth) st2"
    using run_steps_run [OF for_step_emits st2] .
  have r3: "run e ?ev (replicate (length (finditer while_pattern ?b)) 1) st2 st3"
    unfolding st3_def by (rule foldl_run [OF while_step_emits])
  have r4: "run e ?ev (replicate (length (finditer foreach_pattern ?b)) 2) st3 st4"
    unfolding st4_def by (rule foldl_run [OF foreach_step_emits])
  have r5: "run e ?ev (replicate (length (finditer switch_pattern ?b)) 3) st4 st5"
    unfolding st5_def by (rule foldl_run [OF switch_step_emits])
  have r6: "run e ?ev (replicate (length (finditer debug_log_pattern ?b)) 4) st5 st6"
    unfolding st6_def by (rule foldl_run [OF debug_log_step_emits])
  have r7: "run e ?ev (replicate (length (finditer if_pattern ?b)) 5) st6 st7"
    unfolding st7_def by (rule foldl_run [OF if_step_emits])
  have r8: "run e ?ev (replicate (length (finditer assignment_pattern ?b)) 6) st7 st8"
    unfolding st8_def by (rule foldl_run [OF assignment_step_emits])
  have r9: "run e ?ev (replicate (length (finditer yield_pattern ?b)) 7) st8 st9"
    unfolding st9_def by (rule foldl_run [OF yield_step_emits])
  obtain calls where calls: "calls \<le> length (finditer method_call_pattern ?b)"
      "run e ?ev (replicate calls 8) st9 st10"
  proof -
    have "\<exists>c \<le> length (finditer method_call_pattern ?b).
        run e ?ev (replicate c 8) st9
          (foldl (call_step e ?ev ?b) st9 (finditer method_call_pattern ?b))"
      by (rule foldl_run_skip) (rule call_step_emits)
    then show ?thesis using that unfolding st10_def by blast
  qed
  have "run e ?ev (categories ?b calls) (start_state e g meth) st10"
    unfolding categories_def
    using run_append [OF calls(2) run_append [OF r9 run_append [OF r8 run_append [OF r7
          run_append [OF r6 run_append [OF r5 run_append [OF r4 run_append [OF r3 r2]]]]]]]]
    by simp
  then show ?thesis using calls(1) res by blast
qed

lemma event_not_construct [simp]: "\<not> is_construct (fst (create_event_node e n g))"
  by (simp add: is_construct_def create_event_node_def Port_def)

lemma start_wired: "wired e (event_of e g meth) (start_state e g meth)"
  by (simp add: wired_def event_of_def start_state_def cursor_def trigger_of_def)

lemma run_wired: "run e ev ks st st' \<Longrightarrow> wired e ev st \<Longrightarrow> wired e ev st'"
  by (induction rule: run.induct) (auto intro: emits_wired)

lemma run_ranks:
  "run e ev ks st st' \<Longrightarrow>
     map rank (filter is_construct (nodes st')) = map rank (filter is_construct (nodes st)) @ ks"
proof (induction rule: run.induct)
  case (run_nil st)
  show ?case by simp
next
  case (run_snoc ks st st' k st'')
  from run_snoc(2) obtain main aux where
    "nodes st'' = nodes st' @ main # aux" "is_construct main" "rank main = k"
    "list_all is_auxiliary aux"
    by (rule emits_shape)
  then show ?case
    using run_snoc(3) by (simp add: list_all_iff is_auxiliary_def)
qed

lemma run_prefix: "run e ev ks st st' \<Longrightarrow> \<exists>extra. nodes st' = nodes st @ extra"
proof (induction rule: run.induct)
  case (run_nil st)
  show ?case by simp
next
  case (run_snoc ks st st' k st'')
  from run_snoc(2) obtain main aux where "nodes st'' = nodes st' @ main # aux"
    by (rule emits_shape)
  then show ?case using run_snoc(3) by auto
qed

lemma run_frame:
  "run e ev ks st st' \<Longrightarrow>
     self_nodes (self st') = self_nodes (self st)
     \<and> self_connections (self st') = self_connections (self st)"
proof (induction rule: run.induct)
  case (run_nil st)
  show ?case by simp
next
  case (run_snoc ks st st' k st'')
  from run_snoc(2) have "self_nodes (self st'') = self_nodes (self st')"
    "self_connections (self st'') = self_connections (self st')"
    by (auto elim: emits_shape)
  then show ?case using run_snoc(3) by simp
qed

lemma start_nodes:
  "nodes (start_state e g meth) =
     (if method_name meth \<in> fst ` set UNITY_EVENTS
      then [fst (create_event_node e (method_name meth) g)] else [])"
  by (simp add: start_state_def)

lemma attach_description_keeps:
  assumes "ns = nodes (start_state e g meth) @ extra"
  shows "map (unit_id e) (attach_description meth (event_of e g meth) ns) = map (unit_id e) ns"
    and "map ports (attach_description meth (event_of e g meth) ns) = map ports ns"
    and "map node_type (attach_description meth (event_of e g meth) ns) = map node_type ns"
    and "map category (attach_description meth (event_of e g meth) ns) = map category ns"
proof -
  show "map (unit_id e) (attach_description meth (event_of e g meth) ns) = map (unit_id e) ns"
    "map ports (attach_description meth (event_of e g meth) ns) = map ports ns"
    "map node_type (attach_description meth (event_of e g meth) ns) = map node_type ns"
    "map category (attach_description meth (event_of e g meth) ns) = map category ns"
    unfolding assms start_nodes
    by (simp_all add: attach_description_def event_of_def unit_id_def)
qed

lemma attach_description_constructs:
  assumes "ns = nodes (start_state e g meth) @ extra"
  shows "filter is_construct (attach_description meth (event_of e g meth) ns)
           = filter is_construct ns"
  unfolding assms start_nodes
  by (simp add: attach_description_def event_of_def is_construct_def
        create_event_node_def Port_def)

lemma attach_description_head:
  assumes "ns = nodes (start_state e g meth) @ extra"
    and "method_name meth \<in> fst ` set UNITY_EVENTS"
  shows "attach_description meth (event_of e g meth) ns \<noteq> []"
    and "category (hd (attach_description meth (event_of e g meth) ns)) = EVENT"
    and "node_type (hd (attach_description meth (event_of e g meth) ns))
           = dict_get UNITY_EVENTS (method_name meth) ''Unity.VisualScripting.Start''"
    and "\<not> is_construct (hd (attach_description meth (event_of e g meth) ns))"
    and "unit_id e (hd (attach_description meth (event_of e g meth) ns))
           = unit_id e (fst (create_event_node e (method_name meth) g))"
  using assms(2) unfolding assms(1) start_nodes
  by (simp_all add: attach_description_def event_of_def is_construct_def
        create_event_node_def Port_def unit_id_def)

lemma chain_source_id:
  "unit_id e p = unit_id e p' \<Longrightarrow> chain e (Some (p, k)) cs = chain e (Some (p', k)) cs"
  by (cases cs) simp_all

lemma process_method_facts:
  assumes "process_method e g meth = Inr ((ns, cs), g')"
  shows "\<exists>calls \<le> length (finditer method_call_pattern (body meth)).
           map rank (filter is_construct ns) = categories (body meth) calls"
    and "map edge (filter is_control cs) =
           chain e (if method_name meth \<in> fst ` set UNITY_EVENTS
                    then Some (hd ns, ''trigger'') else None) (filter is_construct ns)"
    and "\<forall>c \<in> set cs. source_unit_id c \<in> unit_id e ` set ns
           \<and> destination_unit_id c \<in> unit_id e ` set (filter is_construct ns)"
    and "method_name meth \<in> fst ` set UNITY_EVENTS \<Longrightarrow>
           ns \<noteq> [] \<and> category (hd ns) = EVENT \<and> \<not> is_construct (hd ns)
           \<and> node_type (hd ns) = dict_get UNITY_EVENTS (method_name meth) ''Unity.VisualScripting.Start''"
    and "self_nodes g' = self_nodes g \<and> self_connections g' = self_connections g"
proof -
  let ?ev = "event_of e g meth" and ?s = "start_state e g meth"
  from process_method_run [OF assms] obtain st calls where
    calls: "calls \<le> length (finditer method_call_pattern (body meth))"
    and r: "run e ?ev (categories (body meth) calls) ?s st"
    and ns: "ns = attach_description meth ?ev (nodes st)"
    and cs: "cs = connections st" and g': "g' = self st"
    by blast
  from run_prefix [OF r] obtain extra where ex: "nodes st = nodes ?s @ extra"
    by blast
  have w: "wired e ?ev st"
    using run_wired [OF r start_wired] .
  have cons: "filter is_construct ns = filter is_construct (nodes st)"
    unfolding ns using attach_description_constructs [OF ex] .
  have ids: "map (unit_id e) ns = map (unit_id e) (nodes st)"
    unfolding ns using attach_description_keeps(1) [OF ex] .
  have "filter is_construct (nodes ?s) = []"
    by (simp add: start_nodes)
  then have "map rank (filter is_construct (nodes st)) = categories (body meth) calls"
    using run_ranks [OF r] by simp
  then show "\<exists>calls \<le> length (finditer method_call_pattern (body meth)).
           map rank (filter is_construct ns) = categories (body meth) calls"
    using calls cons by auto
  show "map edge (filter is_control cs) =
           chain e (if method_name meth \<in> fst ` set UNITY_EVENTS
                    then Some (hd ns, ''trigger'') else None) (filter is_construct ns)"
  proof (cases "method_name meth \<in> fst ` set UNITY_EVENTS")
    case True
    have "unit_id e (hd ns) = unit_id e (fst (create_event_node e (method_name meth) g))"
      unfolding ns using attach_description_head(5) [OF ex True] .
    from chain_source_id [OF this] show ?thesis
      using w True by (simp add: wired_def cs cons event_of_def trigger_of_def)
  next
    case False
    then show ?thesis
      using w by (simp add: wired_def cs cons event_of_def trigger_of_def)
  qed
  have "set (map (unit_id e) ns) = set (map (unit_id e) (nodes st))"
    using ids by simp
  then have "unit_id e ` set ns = unit_id e ` set (nodes st)"
    by simp
  then show "\<forall>c \<in> set cs. source_unit_id c \<in> unit_id e ` set ns
           \<and> destination_unit_id c \<in> unit_id e ` set (filter is_construct ns)"
    using w by (simp add: wired_def cs cons)
  show "ns \<noteq> [] \<and> category (hd ns) = EVENT \<and> \<not> is_construct (hd ns)
           \<and> node_type (hd ns) = dict_get UNITY_EVENTS (method_name meth) ''Unity.VisualScripting.Start''"
    if "method_name meth \<in> fst ` set UNITY_EVENTS"
    unfolding ns using attach_description_head [OF ex that] by simp
  have "self_nodes (self ?s) = self_nodes g" "self_connections (self ?s) = self_connections g"
    by (simp_all add: start_state_def)
  then show "self_nodes g' = self_nodes g \<and> self_connections g' = self_connections g"
    using run_frame [OF r] g' by simp
qed





text \<open>
  Claim C1. Within the translation of one method the control connections, read in the order
  in which they were created, are exactly the chain over the construct nodes (the nodes with
  an \<open>enter\<close> port) in their order of emission: the first construct is entered from the
  event node's \<open>trigger\<close> output when the method is a lifecycle event, and every later
  construct is entered from the \<open>exit\<close> output of the construct emitted just before it.
\<close>

theorem control_cursor_wiring:
  assumes "process_method e g meth = Inr ((ns, cs), g')"
  shows "map edge (filter is_control cs) =
           chain e (if method_name meth \<in> fst ` set UNITY_EVENTS
                    then Some (hd ns, ''trigger'') else None) (filter is_construct ns)"
  using process_method_facts(2) [OF assms] .





section \<open>The assembled document\<close>

lemma document_elements_graph [simp]:
  "document_elements (graph_document parser els) = els"
  by (simp add: document_elements_def graph_document_def)

lemma node_element_id [simp]:
  "jget ''$id'' (node_to_dict e n) = Some (JStr (unit_id e n))"
  by (simp add: node_to_dict_def)

lemma node_element_source [simp]:
  "jget ''sourceUnit'' (node_to_dict e n) = None"
  by (simp add: node_to_dict_def map_add_def split: option.splits)

lemma connection_element [simp]:
  "jget ''$id'' (connection_to_dict c) = None"
  "jget ''sourceUnit'' (connection_to_dict c) = Some (JDict [(''$ref'', JStr (source_unit_id c))])"
  "jget ''destinationUnit'' (connection_to_dict c)
     = Some (JDict [(''$ref'', JStr (destination_unit_id c))])"
  by (simp_all add: connection_to_dict_def)

lemma process_methods_accumulates:
  assumes "process_methods e ms g = Inr g'"
  shows "self_nodes g' = self_nodes g @ concat (map fst (method_outputs e ms g))
     \<and> self_connections g' = self_connections g @ concat (map snd (method_outputs e ms g))"
  using assms
proof (induction ms arbitrary: g)
  case Nil
  then show ?case by simp
next
  case (Cons meth rest)
  then obtain ns cs g1 where pm: "process_method e g meth = Inr ((ns, cs), g1)"
    and rest: "process_methods e rest
         (g1\<lparr>self_nodes := self_nodes g1 @ ns, self_connections := self_connections g1 @ cs\<rparr>)
       = Inr g'"
    by (auto split: sum.splits)
  have fr: "self_nodes g1 = self_nodes g" "self_connections g1 = self_connections g"
    using process_method_facts(5) [OF pm] by simp_all
  show ?case
    using Cons.IH [OF rest] pm fr by simp
qed

lemma process_methods_resolves:
  assumes "process_methods e ms g = Inr g'"
    and "list_all (resolves e (self_nodes g)) (self_connections g)"
  shows "list_all (resolves e (self_nodes g')) (self_connections g')"
  using assms
proof (induction ms arbitrary: g)
  case Nil
  then show ?case by simp
next
  case (Cons meth rest)
  then obtain ns cs g1 where pm: "process_method e g meth = Inr ((ns, cs), g1)"
    and rest: "process_methods e rest
         (g1\<lparr>self_nodes := self_nodes g1 @ ns, self_connections := self_connections g1 @ cs\<rparr>)
       = Inr g'"
    by (auto split: sum.splits)
  have fr: "self_nodes g1 = self_nodes g" "self_connections g1 = self_connections g"
    using process_method_facts(5) [OF pm] by simp_all
  have new: "\<forall>c \<in> set cs. source_unit_id c \<in> unit_id e ` set ns
           \<and> destination_unit_id c \<in> unit_id e ` set ns"
    using process_method_facts(3) [OF pm] by auto
  have "list_all (resolves e (self_nodes g @ ns)) (self_connections g @ cs)"
    using Cons.prems(2) new by (auto simp: list_all_iff resolves_def)
  then show ?case
    using Cons.IH [OF rest] fr by simp
qed

text \<open>
  Claim C6. In a generated document every connection element refers, at both ends, to the
  \<open>$id\<close> of a node element of the same document. The generator's connection list has
  the property whenever it had it before the run (a fresh generator has no connections).
\<close>

theorem no_dangling_references:
  assumes "generate_graph e parser g = Inr (graph, g')"
    and "list_all (resolves e (self_nodes g)) (self_connections g)"
  shows "list_all (resolves e (self_nodes g')) (self_connections g')
     \<and> list_all (\<lambda>x. list_all (\<lambda>r. r \<in> set (element_ids (document_elements graph)))
                      (element_refs x))
         (document_elements graph)"
proof -
  from assms(1) have pm: "process_methods e (methods parser) g = Inr g'"
    and gr: "graph = graph_document parser
        (map (node_to_dict e) (self_nodes g') @ map connection_to_dict (self_connections g'))"
    by (auto simp: generate_graph_def Let_def split: sum.splits)
  have res: "list_all (resolves e (self_nodes g')) (self_connections g')"
    using process_methods_resolves [OF pm assms(2)] .
  have ids: "element_ids (map (node_to_dict e) ns @ map connection_to_dict cs)
      = map (\<lambda>n. Some (JStr (unit_id e n))) ns" for ns cs
    by (simp add: element_ids_def is_node_element_def filter_map comp_def)
  have refs: "list_all (\<lambda>r. r \<in> (\<lambda>n. Some (JStr (unit_id e n))) ` set (self_nodes g'))
      (element_refs (connection_to_dict c))" if "c \<in> set (self_connections g')" for c
    using res that by (auto simp: list_all_iff resolves_def element_refs_def)
  have norefs: "element_refs (node_to_dict e n) = []" for n
    by (simp add: element_refs_def)
  show ?thesis
    using res refs by (auto simp: gr ids norefs list_all_iff)
qed

text \<open>
  Claim C9. The element sequence of a generated document is the node elements followed by
  the connection elements; the nodes (and the connections) stand in the order of the methods
  and, within a method, in the order in which its translation emitted them.
\<close>

theorem elements_nodes_before_connections:
  assumes "generate_graph e parser g = Inr (graph, g')"
  shows "document_elements graph
           = map (node_to_dict e) (self_nodes g') @ map connection_to_dict (self_connections g')
     \<and> list_all is_node_element (map (node_to_dict e) (self_nodes g'))
     \<and> list_all is_connection_element (map connection_to_dict (self_connections g'))
     \<and> self_nodes g' = self_nodes g @ concat (map fst (method_outputs e (methods parser) g))
     \<and> self_connections g'
           = self_connections g @ concat (map snd (method_outputs e (methods parser) g))"
proof -
  from assms have pm: "process_methods e (methods parser) g = Inr g'"
    and gr: "graph = graph_document parser
        (map (node_to_dict e) (self_nodes g') @ map connection_to_dict (self_connections g'))"
    by (auto simp: generate_graph_def Let_def split: sum.splits)
  have "list_all is_node_element (map (node_to_dict e) ns)" for ns
    by (simp add: list_all_iff is_node_element_def)
  moreover have "list_all is_connection_element (map connection_to_dict cs)" for cs
    by (simp add: list_all_iff is_connection_element_def)
  ultimately show ?thesis
    using process_methods_accumulates [OF pm] by (simp add: gr)
qed

text \<open>
  The same function without local bindings, for evaluation.
\<close>

lemma process_method_code [code]:
  "process_method e self0 meth =
     (case run_steps (for_step e (event_of e self0 meth)) (finditer for_pattern (body meth))
             (start_state e self0 meth) of
        Inl err \<Rightarrow> Inl err
      | Inr st2 \<Rightarrow>
          Inr ((\<lambda>st. ((attach_description meth (event_of e self0 meth) (nodes st),
                        connections st), self st))
            (foldl (call_step e (event_of e self0 meth) (body meth))
              (foldl (yield_step e (event_of e self0 meth))
                (foldl (assignment_step e (event_of e self0 meth))
                  (foldl (if_step e (event_of e self0 meth))
                    (foldl (debug_log_step e (event_of e self0 meth))
                      (foldl (switch_step e (event_of e self0 meth) (body meth))
                        (foldl (foreach_step e (event_of e self0 meth))
                          (foldl (while_step e (event_of e self0 meth)) st2
                            (finditer while_pattern (body meth)))
                          (finditer foreach_pattern (body meth)))
                        (finditer switch_pattern (body meth)))
                      (finditer debug_log_pattern (body meth)))
                    (finditer if_pattern (body meth)))
                  (finditer assignment_pattern (body meth)))
                (finditer yield_pattern (body meth)))
              (finditer method_call_pattern (body meth)))))"
  by (simp add: process_method_def event_of_def start_state_def append_node_eq Let_def
        split: sum.splits)

lemma for_step_code [code]:
  "for_step e ev st m =
     (case (if isdigit (strip (group_of m 2)) then py_int (strip (group_of m 2)) else Inr 0) of
        Inl err \<Rightarrow> Inl err
      | Inr start_int \<Rightarrow>
          (case (if isdigit (strip (group_of m 4)) then py_int (strip (group_of m 4))
                 else Inr 10) of
             Inl err \<Rightarrow> Inl err
           | Inr end_int \<Rightarrow>
               Inr (for_wire e ev start_int end_int (append_node (create_for_node e) st))))"
  by (simp add: for_step_def append_node_eq Let_def split: sum.splits)

lemma while_step_code [code]:
  "while_step e ev st m =
     wire_construct e ev (\<lambda>n s. s) (append_node (create_while_node e) st)"
  by (simp add: while_step_def append_node_eq Let_def)

lemma foreach_step_code [code]:
  "foreach_step e ev st m =
     wire_construct e ev (\<lambda>n s. s)
       (append_node (create_foreach_node e ''System.Collections.IEnumerable'') st)"
  by (simp add: foreach_step_def append_node_eq Let_def)

lemma switch_step_code [code]:
  "switch_step e ev b st m =
     wire_construct e ev (\<lambda>n s. s)
       (append_node
          (create_switch_node e
             (length (finditer case_pattern (extract_switch_body b (m_end m))))) st)"
  by (simp add: switch_step_def append_node_eq Let_def)

lemma debug_log_step_code [code]:
  "debug_log_step e ev st m =
     wire_construct e ev
       (\<lambda>n s. if startswith (strip (group_of m 1)) [CHR 0x22]
                  \<and> endswith (strip (group_of m 1)) [CHR 0x22]
               then connect_value e ''output'' n ''%message''
                      (append_node
                         (create_literal_node e (JStr (butlast (tl (strip (group_of m 1)))))
                            ''string'') s)
               else s)
       (append_node
          (create_invoke_node e ''Log'' ''UnityEngine.Debug''
             [\<lparr>param_type = ''System.Object'', param_name = ''message''\<rparr>] None) st)"
  by (simp add: debug_log_step_def append_node_eq Let_def)

lemma if_step_code [code]:
  "if_step e ev st m =
     wire_construct e ev
       (\<lambda>n s. case find (\<lambda>op. contains op (strip (group_of m 1))) comparison_ops of
                 None \<Rightarrow> s
               | Some op \<Rightarrow>
                   connect_value e ''result'' n ''%condition''
                     (append_node (create_comparison_node e op) s))
       (append_node (create_if_node e) st)"
  by (simp add: if_step_def append_node_eq Let_def split: option.splits)

lemma assignment_step_code [code]:
  "assignment_step e ev st m =
     wire_construct e ev
       (\<lambda>n s. case find (\<lambda>op. contains op (strip (group_of m 2))
                             \<and> \<not> startswith (strip (group_of m 2)) [CHR 0x22])
                      arithmetic_ops of
                 None \<Rightarrow> s
               | Some op \<Rightarrow>
                   connect_value e ''result'' n ''%input''
                     (append_node (create_arithmetic_node e op) s))
       (append_node (create_set_variable_node e (group_of m 1) ''System.Object'') st)"
  by (simp add: assignment_step_def append_node_eq Let_def split: option.splits)

lemma yield_step_code [code]:
  "yield_step e ev st m =
     wire_construct e ev
       (\<lambda>n s. case m_group m 2 of
                 None \<Rightarrow> s
               | Some args \<Rightarrow>
                   if group_of m 1 = ''WaitForSeconds'' \<and> args \<noteq> [] then
                     (case py_float (strip args) of
                        Inl err \<Rightarrow> s
                      | Inr seconds \<Rightarrow>
                          connect_value e ''result'' n ''%instruction''
                            (append_node (create_wait_for_seconds_node e seconds) s))
                   else s)
       (append_node (create_yield_return_node e) st)"
  by (simp add: yield_step_def append_node_eq Let_def split: option.splits sum.splits)

lemma call_step_code [code]:
  "call_step e ev b st m =
     (if group_of m 1 = ''Debug'' \<and> group_of m 2 = ''Log'' then st
      else if CHR ''='' \<in> set (last_line (drop (m_start m - 20) (take (m_start m) b))) then st
      else wire_construct e ev (\<lambda>n s. s)
             (append_node
                (create_custom_invoke_node e (group_of m 2)
                   (if group_of m 1 \<in> set [''GameObject'', ''Transform'', ''Rigidbody'']
                    then ''UnityEngine.'' @ group_of m 1 else group_of m 1)
                   (map (\<lambda>i. \<lparr>param_type = ''System.Object'', param_name = ''arg'' @ str_nat i\<rparr>)
                      [0..<(if strip (group_of m 3) \<noteq> []
                            then length (filter (\<lambda>a. strip a \<noteq> [])
                                           (split_char CHR '','' (strip (group_of m 3))))
                            else 0)])
                   (Some ''void'') False) st))"
  by (simp add: call_step_def append_node_eq Let_def)

lemma process_methods_code [code]:
  "process_methods e [] self0 = Inr self0"
  "process_methods e (meth # rest) self0 = accumulate e rest (process_method e self0 meth)"
  by (simp_all split: sum.splits)

lemma generate_graph_code [code]:
  "generate_graph e parser self0 = assemble e parser (process_methods e (methods parser) self0)"
  by (simp add: generate_graph_def Let_def split: sum.splits)

lemma method_outputs_code [code]:
  "method_outputs e [] g = []"
  "method_outputs e (meth # rest) g = collect_outputs e rest (process_method e g meth)"
  by (simp_all split: sum.splits)

section \<open>Two runs differ in their tokens only\<close>

lemma counters_Node [simp]:
  "counters (snd (Node e typ cat ps dv mi g)) = node_counters (counters g)"
  by (simp add: Node_def new_guid_def next_position_def counters_def node_counters_def
        Let_def split_def)

lemma erase_Node [simp]:
  "erase_node (fst (Node e typ cat ps dv mi g)) =
     \<lparr>guid = [], node_type = typ, position = (fst (counters g), fst (snd (counters g))),
      category = cat, ports = ps, default_values = dv, member_info = mi, description = None\<rparr>"
  by (simp add: Node_def new_guid_def next_position_def counters_def erase_node_def
        Let_def split_def)

lemma counters_create_connection [simp]:
  "counters (snd (create_connection e a k b k' ctl g)) = connection_counters (counters g)"
  by (simp add: create_connection_def new_guid_def counters_def connection_counters_def
        Let_def split_def)

lemma erase_create_connection [simp]:
  "erase_connection (fst (create_connection e a k b k' ctl g)) =
     \<lparr>conn_guid = [], source_unit_id = [], source_key = k, destination_unit_id = [],
      destination_key = k',
      connection_type = (if ctl then ''Unity.VisualScripting.ControlConnection''
                         else ''Unity.VisualScripting.ValueConnection'')\<rparr>"
  by (simp add: create_connection_def new_guid_def erase_connection_def Let_def split_def)

lemma erase_cursor_conns [simp]:
  "map erase_connection (cursor_conns e ev lst d g) =
     (if lst = None then []
      else [\<lparr>conn_guid = [], source_unit_id = [],
             source_key = (if lst = ev then ''trigger'' else ''exit''),
             destination_unit_id = [], destination_key = ''enter'',
             connection_type = ''Unity.VisualScripting.ControlConnection''\<rparr>])"
  by (simp add: cursor_conns_def split: option.splits)

lemma counters_connect_last [simp]:
  "counters (self (connect_last e ev d st)) =
     (if last_node st = None then counters (self st)
      else connection_counters (counters (self st)))"
  by (simp add: connect_last_def append_connection_def split_def Let_def split: option.splits)

lemma construct_not_event [simp]:
  "event_like ev \<Longrightarrow> is_construct n \<Longrightarrow> (Some n = ev) = False"
  by (auto simp: event_like_def)

lemmas sim_simps = sim_def append_node_eq Let_def is_construct_def Port_def

lemma while_step_sim:
  assumes "sim ev1 ev2 st1 st2" "event_like ev1" "event_like ev2"
  shows "sim ev1 ev2 (while_step e1 ev1 st1 m) (while_step e2 ev2 st2 m)"
  using assms by (simp add: sim_simps while_step_def create_while_node_def)

lemma for_step_sim:
  assumes "sim ev1 ev2 st1 st2" "event_like ev1" "event_like ev2"
  shows "rel_sum (=) (sim ev1 ev2) (for_step e1 ev1 st1 m) (for_step e2 ev2 st2 m)"
proof (cases "if isdigit (strip (group_of m 2)) then py_int (strip (group_of m 2)) else Inr 0")
  case (Inl err)
  then show ?thesis
    by (simp add: for_step_def Let_def split_def)
next
  case start: (Inr a)
  show ?thesis
  proof (cases "if isdigit (strip (group_of m 4)) then py_int (strip (group_of m 4)) else Inr 10")
    case (Inl err)
    then show ?thesis
      using start by (simp add: for_step_def Let_def split_def)
  next
    case (Inr b)
    then show ?thesis
      using start assms
      by (simp add: sim_simps for_step_def create_for_node_def create_literal_node_def)
  qed
qed
lemma if_step_sim:
  assumes "sim ev1 ev2 st1 st2" "event_like ev1" "event_like ev2"
  shows "sim ev1 ev2 (if_step e1 ev1 st1 m) (if_step e2 ev2 st2 m)"
proof (cases "find (\<lambda>op. contains op (strip (group_of m 1))) comparison_ops")
  case None
  then show ?thesis
    using assms by (simp add: sim_simps if_step_def create_if_node_def)
next
  case (Some op)
  then show ?thesis
    using assms
    by (simp add: sim_simps if_step_def create_if_node_def create_comparison_node_def)
qed
lemma foreach_step_sim:
  assumes "sim ev1 ev2 st1 st2" "event_like ev1" "event_like ev2"
  shows "sim ev1 ev2 (foreach_step e1 ev1 st1 m) (foreach_step e2 ev2 st2 m)"
  using assms by (simp add: sim_simps foreach_step_def create_foreach_node_def)

lemma switch_step_sim:
  assumes "sim ev1 ev2 st1 st2" "event_like ev1" "event_like ev2"
  shows "sim ev1 ev2 (switch_step e1 ev1 b st1 m) (switch_step e2 ev2 b st2 m)"
  using assms by (simp add: sim_simps switch_step_def create_switch_node_def)

lemma debug_log_step_sim:
  assumes "sim ev1 ev2 st1 st2" "event_like ev1" "event_like ev2"
  shows "sim ev1 ev2 (debug_log_step e1 ev1 st1 m) (debug_log_step e2 ev2 st2 m)"
proof (cases "startswith (strip (group_of m 1)) [CHR 0x22]")
  case False
  then show ?thesis
    using assms by (simp add: sim_simps debug_log_step_def create_invoke_node_def)
next
  case quoted: True
  show ?thesis
  proof (cases "endswith (strip (group_of m 1)) [CHR 0x22]")
    case False
    then show ?thesis
      using quoted assms by (simp add: sim_simps debug_log_step_def create_invoke_node_def)
  next
    case True
    then show ?thesis
      using quoted assms
      by (simp add: sim_simps debug_log_step_def create_invoke_node_def
            create_literal_node_def)
  qed
qed

lemma assignment_step_sim:
  assumes "sim ev1 ev2 st1 st2" "event_like ev1" "event_like ev2"
  shows "sim ev1 ev2 (assignment_step e1 ev1 st1 m) (assignment_step e2 ev2 st2 m)"
proof (cases "find (\<lambda>op. contains op (strip (group_of m 2))
    \<and> \<not> startswith (strip (group_of m 2)) [CHR 0x22]) arithmetic_ops")
  case None
  then show ?thesis
    using assms by (simp add: sim_simps assignment_step_def create_set_variable_node_def)
next
  case (Some op)
  then show ?thesis
    using assms
    by (simp add: sim_simps assignment_step_def create_set_variable_node_def
          create_arithmetic_node_def)
qed

lemma yield_step_sim:
  assumes "sim ev1 ev2 st1 st2" "event_like ev1" "event_like ev2"
  shows "sim ev1 ev2 (yield_step e1 ev1 st1 m) (yield_step e2 ev2 st2 m)"
proof (cases "m_group m 2")
  case None
  then show ?thesis
    using assms by (simp add: sim_simps yield_step_def create_yield_return_node_def)
next
  case (Some args)
  show ?thesis
  proof (cases "group_of m 1 = ''WaitForSeconds''")
    case False
    then show ?thesis
      using Some assms by (simp add: sim_simps yield_step_def create_yield_return_node_def)
  next
    case wait: True
    show ?thesis
    proof (cases "args = []")
      case True
      then show ?thesis
        using Some assms by (simp add: sim_simps yield_step_def create_yield_return_node_def)
    next
      case False
      show ?thesis
      proof (cases "py_float (strip args)")
        case (Inl err)
        then show ?thesis
          using wait False Some assms
          by (simp add: sim_simps yield_step_def create_yield_return_node_def)
      next
        case (Inr seconds)
        then show ?thesis
          using wait False Some assms
          by (simp add: sim_simps yield_step_def create_yield_return_node_def
                create_wait_for_seconds_node_def)
      qed
    qed
  qed
qed

lemma call_step_sim:
  assumes "sim ev1 ev2 st1 st2" "event_like ev1" "event_like ev2"
  shows "sim ev1 ev2 (call_step e1 ev1 b st1 m) (call_step e2 ev2 b st2 m)"
proof -
  have skip: "call_step e ev b st m = st"
    if "(group_of m 1 = ''Debug'' \<and> group_of m 2 = ''Log'')
        \<or> CHR ''='' \<in> set (last_line (drop (m_start m - 20) (take (m_start m) b)))"
    for e ev st
    using that by (auto simp: call_step_def Let_def)
  show ?thesis
  proof (cases "group_of m 1 = ''Debug''")
    case debug: True
    show ?thesis
    proof (cases "group_of m 2 = ''Log''")
      case True
      then show ?thesis using debug assms(1) by (simp add: skip)
    next
      case log: False
      show ?thesis
      proof (cases "CHR ''='' \<in> set (last_line (drop (m_start m - 20) (take (m_start m) b)))")
        case True
        then show ?thesis using assms(1) by (simp add: skip)
      next
        case False
        then show ?thesis
          using debug log assms
          by (simp add: sim_simps call_step_def create_custom_invoke_node_def)
      qed
    qed
  next
    case other: False
    show ?thesis
    proof (cases "CHR ''='' \<in> set (last_line (drop (m_start m - 20) (take (m_start m) b)))")
      case True
      then show ?thesis using assms(1) by (simp add: skip)
    next
      case False
      then show ?thesis
        using other assms
        by (simp add: sim_simps call_step_def create_custom_invoke_node_def)
    qed
  qed
qed

lemma foldl_sim:
  assumes "\<And>st1 st2 m. sim ev1 ev2 st1 st2 \<Longrightarrow> sim ev1 ev2 (f1 st1 m) (f2 st2 m)"
    and "sim ev1 ev2 st1 st2"
  shows "sim ev1 ev2 (foldl f1 st1 ms) (foldl f2 st2 ms)"
  using assms(2) by (induction ms arbitrary: st1 st2) (auto intro: assms(1))

lemma run_steps_sim:
  assumes "\<And>st1 st2 m. sim ev1 ev2 st1 st2 \<Longrightarrow>
      rel_sum (=) (sim ev1 ev2) (f1 st1 m) (f2 st2 m)"
    and "sim ev1 ev2 st1 st2"
  shows "rel_sum (=) (sim ev1 ev2) (run_steps f1 ms st1) (run_steps f2 ms st2)"
  using assms(2)
proof (induction ms arbitrary: st1 st2)
  case Nil
  then show ?case by simp
next
  case (Cons m ms)
  from assms(1) [OF Cons.prems, of m] show ?case
    by (cases "f1 st1 m"; cases "f2 st2 m") (auto intro: Cons.IH)
qed

lemma start_sim:
  assumes "counters g1 = counters g2"
  shows "sim (event_of e1 g1 meth) (event_of e2 g2 meth)
           (start_state e1 g1 meth) (start_state e2 g2 meth)"
    and "event_like (event_of e1 g1 meth)" and "event_like (event_of e2 g2 meth)"
  using assms
  by (simp_all add: sim_def event_of_def start_state_def event_like_def create_event_node_def
        is_construct_def Port_def)

lemma attach_description_sim:
  assumes "counters g1 = counters g2" and "map erase_node ns1 = map erase_node ns2"
  shows "map erase_node (attach_description meth (event_of e1 g1 meth) ns1)
       = map erase_node (attach_description meth (event_of e2 g2 meth) ns2)"
proof -
  have "erase_node (v\<lparr>description := d\<rparr>) = (erase_node v)\<lparr>description := d\<rparr>" for v d
    by (simp add: erase_node_def)
  moreover have "ns1 = [] \<longleftrightarrow> ns2 = []"
    using arg_cong [OF assms(2), of length] by (cases ns1; cases ns2) simp_all
  ultimately show ?thesis
    using assms
    by (simp add: attach_description_def event_of_def create_event_node_def map_update)
qed

lemma process_method_sim:
  assumes "counters g1 = counters g2"
  shows "rel_sum (=) (\<lambda>r1 r2. same_structure (fst r1) (fst r2)
                         \<and> counters (snd r1) = counters (snd r2))
           (process_method e1 g1 meth) (process_method e2 g2 meth)"
proof -
  let ?ev1 = "event_of e1 g1 meth" and ?ev2 = "event_of e2 g2 meth" and ?b = "body meth"
  have ev: "event_like ?ev1" "event_like ?ev2"
    by (rule start_sim(2) [OF assms], rule start_sim(3) [OF assms])
  let ?r1 = "run_steps (for_step e1 ?ev1) (finditer for_pattern ?b) (start_state e1 g1 meth)"
  let ?r2 = "run_steps (for_step e2 ?ev2) (finditer for_pattern ?b) (start_state e2 g2 meth)"
  have rel: "rel_sum (=) (sim ?ev1 ?ev2) ?r1 ?r2"
    by (rule run_steps_sim [OF for_step_sim [OF _ ev] start_sim(1) [OF assms]])
  show ?thesis
  proof (cases ?r1)
    case (Inl a)
    then have "?r2 = Inl a" using rel by (cases ?r2) simp_all
    then show ?thesis using Inl by (simp add: process_method_code)
  next
    case r1: (Inr s1)
    then obtain s2 where r2: "?r2 = Inr s2" and s: "sim ?ev1 ?ev2 s1 s2"
      using rel by (cases ?r2) simp_all
    define t1 where "t1 = foldl (call_step e1 ?ev1 ?b)
        (foldl (yield_step e1 ?ev1)
          (foldl (assignment_step e1 ?ev1)
            (foldl (if_step e1 ?ev1)
              (foldl (debug_log_step e1 ?ev1)
                (foldl (switch_step e1 ?ev1 ?b)
                  (foldl (foreach_step e1 ?ev1)
                    (foldl (while_step e1 ?ev1) s1 (finditer while_pattern ?b))
                    (finditer foreach_pattern ?b))
                  (finditer switch_pattern ?b))
                (finditer debug_log_pattern ?b))
              (finditer if_pattern ?b))
            (finditer assignment_pattern ?b))
          (finditer yield_pattern ?b))
        (finditer method_call_pattern ?b)"
    define t2 where "t2 = foldl (call_step e2 ?ev2 ?b)
        (foldl (yield_step e2 ?ev2)
          (foldl (assignment_step e2 ?ev2)
            (foldl (if_step e2 ?ev2)
              (foldl (debug_log_step e2 ?ev2)
                (foldl (switch_step e2 ?ev2 ?b)
                  (foldl (foreach_step e2 ?ev2)
                    (foldl (while_step e2 ?ev2) s2 (finditer while_pattern ?b))
                    (finditer foreach_pattern ?b))
                  (finditer switch_pattern ?b))
                (finditer debug_log_pattern ?b))
              (finditer if_pattern ?b))
            (finditer assignment_pattern ?b))
          (finditer yield_pattern ?b))
        (finditer method_call_pattern ?b)"
    have "sim ?ev1 ?ev2 t1 t2"
      unfolding t1_def t2_def
      by (intro foldl_sim [OF call_step_sim [OF _ ev]] foldl_sim [OF yield_step_sim [OF _ ev]]
            foldl_sim [OF assignment_step_sim [OF _ ev]] foldl_sim [OF if_step_sim [OF _ ev]]
            foldl_sim [OF debug_log_step_sim [OF _ ev]] foldl_sim [OF switch_step_sim [OF _ ev]]
            foldl_sim [OF foreach_step_sim [OF _ ev]] foldl_sim [OF while_step_sim [OF _ ev]]
            s)
    then have t: "counters (self t1) = counters (self t2)"
      "map erase_node (nodes t1) = map erase_node (nodes t2)"
      "map erase_connection (connections t1) = map erase_connection (connections t2)"
      by (simp_all add: sim_def)
    define n1 where "n1 = attach_description meth ?ev1 (nodes t1)"
    define n2 where "n2 = attach_description meth ?ev2 (nodes t2)"
    have n: "map erase_node n1 = map erase_node n2"
      unfolding n1_def n2_def by (rule attach_description_sim [OF assms t(2)])
    have cat: "category (erase_node x) = category x" for x
      by (simp add: erase_node_def)
    have c: "map category n1 = map category n2"
      using arg_cong [OF n, of "map category"] by (simp add: cat comp_def)
    have ln: "length n1 = length n2"
      using arg_cong [OF n, of length] by simp
    have lc: "length (connections t1) = length (connections t2)"
      using arg_cong [OF t(3), of length] by simp
    have p1: "process_method e1 g1 meth = Inr ((n1, connections t1), self t1)"
      using r1 by (simp add: process_method_code t1_def n1_def)
    have p2: "process_method e2 g2 meth = Inr ((n2, connections t2), self t2)"
      using r2 by (simp add: process_method_code t2_def n2_def)
    have cc: "category_count n1 = category_count n2"
      using c by (simp add: category_count_def fun_eq_iff)
    show ?thesis
      unfolding p1 p2 by (simp add: same_structure_def n cc ln lc t)
  qed
qed

lemma category_count_append [simp]:
  "category_count (a @ b) k = category_count a k + category_count b k"
  by (simp add: category_count_def)

lemma process_methods_sim:
  assumes "generators_alike g1 g2"
  shows "rel_sum (=) generators_alike (process_methods e1 ms g1) (process_methods e2 ms g2)"
  using assms
proof (induction ms arbitrary: g1 g2)
  case Nil
  then show ?case by simp
next
  case (Cons meth rest)
  have c: "counters g1 = counters g2"
    using Cons.prems by (simp add: generators_alike_def)
  show ?case
  proof (cases "process_method e1 g1 meth")
    case (Inl a)
    then have "process_method e2 g2 meth = Inl a"
      using process_method_sim [OF c, of e1 meth e2]
      by (cases "process_method e2 g2 meth") simp_all
    then show ?thesis using Inl by simp
  next
    case r1: (Inr r)
    obtain ns1 cs1 h1 where r: "r = ((ns1, cs1), h1)"
      by (metis surj_pair)
    from r1 r obtain ns2 cs2 h2 where r2: "process_method e2 g2 meth = Inr ((ns2, cs2), h2)"
      and ss: "same_structure (ns1, cs1) (ns2, cs2)" and ch: "counters h1 = counters h2"
      using process_method_sim [OF c, of e1 meth e2]
      by (cases "process_method e2 g2 meth") auto
    have f1: "self_nodes h1 = self_nodes g1" "self_connections h1 = self_connections g1"
      using process_method_facts(5) [of e1 g1 meth ns1 cs1 h1] r1 r by simp_all
    have f2: "self_nodes h2 = self_nodes g2" "self_connections h2 = self_connections g2"
      using process_method_facts(5) [OF r2] by simp_all
    have "generators_alike
        (h1\<lparr>self_nodes := self_nodes h1 @ ns1, self_connections := self_connections h1 @ cs1\<rparr>)
        (h2\<lparr>self_nodes := self_nodes h2 @ ns2, self_connections := self_connections h2 @ cs2\<rparr>)"
      using Cons.prems ss ch f1 f2
      by (simp add: generators_alike_def same_structure_def generator_graph_def counters_def)
    from Cons.IH [OF this] show ?thesis
      using r1 r r2 by simp
  qed
qed

lemma erase_node_fields:
  assumes "erase_node n1 = erase_node n2"
  shows "node_type n1 = node_type n2" "position n1 = position n2"
    "default_values n1 = default_values n2" "member_info n1 = member_info n2"
    "description n1 = description n2"
  using arg_cong [OF assms, of node_type] arg_cong [OF assms, of position]
    arg_cong [OF assms, of default_values] arg_cong [OF assms, of member_info]
    arg_cong [OF assms, of description]
  by (simp_all add: erase_node_def)

lemma erase_node_element:
  assumes "erase_node n1 = erase_node n2"
  shows "erase_element (node_to_dict e1 n1) = erase_element (node_to_dict e2 n2)"
  using erase_node_fields [OF assms]
  by (simp add: node_to_dict_def token_keys_def split: option.splits)

lemma erase_connection_element:
  assumes "erase_connection c1 = erase_connection c2"
  shows "erase_element (connection_to_dict c1) = erase_element (connection_to_dict c2)"
  using arg_cong [OF assms, of source_key] arg_cong [OF assms, of destination_key]
    arg_cong [OF assms, of connection_type]
  by (simp add: connection_to_dict_def token_keys_def erase_connection_def)

lemma erase_elements:
  "map erase_node ns1 = map erase_node ns2 \<Longrightarrow>
     map (\<lambda>n. erase_element (node_to_dict e1 n)) ns1
       = map (\<lambda>n. erase_element (node_to_dict e2 n)) ns2"
  "map erase_connection cs1 = map erase_connection cs2 \<Longrightarrow>
     map (\<lambda>c. erase_element (connection_to_dict c)) cs1
       = map (\<lambda>c. erase_element (connection_to_dict c)) cs2"
proof -
  show "map (\<lambda>n. erase_element (node_to_dict e1 n)) ns1
       = map (\<lambda>n. erase_element (node_to_dict e2 n)) ns2"
    if "map erase_node ns1 = map erase_node ns2"
    using that
  proof (induction ns1 arbitrary: ns2)
    case Nil
    then show ?case by simp
  next
    case (Cons a ns1)
    then obtain b rest where "ns2 = b # rest" by (cases ns2) auto
    then show ?case using Cons erase_node_element [of a b e1 e2] by auto
  qed
  show "map (\<lambda>c. erase_element (connection_to_dict c)) cs1
       = map (\<lambda>c. erase_element (connection_to_dict c)) cs2"
    if "map erase_connection cs1 = map erase_connection cs2"
    using that
  proof (induction cs1 arbitrary: cs2)
    case Nil
    then show ?case by simp
  next
    case (Cons a cs1)
    then obtain b rest where "cs2 = b # rest" by (cases cs2) auto
    then show ?case using Cons erase_connection_element [of a b] by auto
  qed
qed

lemma fresh_generators_alike: "generators_alike VisualScriptingGenerator VisualScriptingGenerator"
  by (simp add: generators_alike_def same_structure_def)

subsection \<open>Two runs wire the same nodes\<close>

lemma wired_alike_iff:
  "wired_alike e1 e2 ns1 ns2 c1 c2 \<longleftrightarrow> (\<exists>j k. joins e1 ns1 c1 j k \<and> joins e2 ns2 c2 j k)"
proof
  assume "wired_alike e1 e2 ns1 ns2 c1 c2"
  then show "\<exists>j k. joins e1 ns1 c1 j k \<and> joins e2 ns2 c2 j k"
    by (auto simp: wired_alike_def list_ex_iff)
next
  assume "\<exists>j k. joins e1 ns1 c1 j k \<and> joins e2 ns2 c2 j k"
  then obtain j k where jk: "joins e1 ns1 c1 j k" "joins e2 ns2 c2 j k"
    by blast
  then have "j \<in> set [0..<length ns1]" "k \<in> set [0..<length ns1]"
    by (simp_all add: joins_def)
  then show "wired_alike e1 e2 ns1 ns2 c1 c2"
    unfolding wired_alike_def list_ex_iff using jk by blast
qed

lemma located_append:
  assumes "located ns1 ns2 a b"
  shows "located (ns1 @ xs) (ns2 @ ys) a b"
proof -
  from assms obtain j where "j < length ns1" "j < length ns2" "ns1 ! j = a" "ns2 ! j = b"
    unfolding located_def by blast
  then have "j < length (ns1 @ xs) \<and> j < length (ns2 @ ys)
      \<and> (ns1 @ xs) ! j = a \<and> (ns2 @ ys) ! j = b"
    by (simp add: nth_append)
  then show ?thesis
    unfolding located_def by blast
qed

lemma located_new:
  assumes "length ns1 = length ns2"
  shows "located (ns1 @ [a]) (ns2 @ [b]) a b"
proof -
  have "length ns1 < length (ns1 @ [a]) \<and> length ns1 < length (ns2 @ [b])
      \<and> (ns1 @ [a]) ! length ns1 = a \<and> (ns2 @ [b]) ! length ns1 = b"
    using assms by (simp add: nth_append)
  then show ?thesis
    unfolding located_def by blast
qed

lemma joins_append: "joins e ns c j k \<Longrightarrow> joins e (ns @ xs) c j k"
  by (simp add: joins_def nth_append)

lemma joins_shift: "joins e ns c j k \<Longrightarrow> joins e (ps @ ns) c (length ps + j) (length ps + k)"
  by (simp add: joins_def nth_append)

lemma wired_alike_append:
  "wired_alike e1 e2 ns1 ns2 c1 c2 \<Longrightarrow> wired_alike e1 e2 (ns1 @ xs) (ns2 @ ys) c1 c2"
  unfolding wired_alike_iff by (blast intro: joins_append)

lemma wired_alike_shift:
  assumes "wired_alike e1 e2 ns1 ns2 c1 c2" and "length ps1 = length ps2"
  shows "wired_alike e1 e2 (ps1 @ ns1) (ps2 @ ns2) c1 c2"
proof -
  from assms(1) obtain j k where "joins e1 ns1 c1 j k" "joins e2 ns2 c2 j k"
    unfolding wired_alike_iff by blast
  then have "joins e1 (ps1 @ ns1) c1 (length ps1 + j) (length ps1 + k)"
    "joins e2 (ps2 @ ns2) c2 (length ps1 + j) (length ps1 + k)"
    using joins_shift [of e1 ns1 c1 j k ps1] joins_shift [of e2 ns2 c2 j k ps2] assms(2)
    by simp_all
  then show ?thesis
    unfolding wired_alike_iff by blast
qed

lemma wired_alike_ids:
  assumes "wired_alike e1 e2 ns1 ns2 c1 c2"
    and "map (unit_id e1) ms1 = map (unit_id e1) ns1"
    and "map (unit_id e2) ms2 = map (unit_id e2) ns2"
  shows "wired_alike e1 e2 ms1 ms2 c1 c2"
proof -
  have same: "joins e ms c j k" if "joins e ns c j k" "map (unit_id e) ms = map (unit_id e) ns"
    for e ms ns c j k
  proof -
    have l: "length ms = length ns"
      using arg_cong [OF that(2), of length] by simp
    have "unit_id e (ms ! i) = unit_id e (ns ! i)" if "i < length ns" for i
      using arg_cong [OF \<open>map (unit_id e) ms = map (unit_id e) ns\<close>, of "\<lambda>xs. xs ! i"] that l
      by simp
    then show ?thesis
      using that(1) l by (simp add: joins_def)
  qed
  from assms(1) obtain j k where "joins e1 ns1 c1 j k" "joins e2 ns2 c2 j k"
    unfolding wired_alike_iff by blast
  then show ?thesis
    unfolding wired_alike_iff using same [OF _ assms(2)] same [OF _ assms(3)] by blast
qed

lemma wired_alike_new:
  assumes "located ns1 ns2 a1 a2" and "located ns1 ns2 b1 b2"
  shows "wired_alike e1 e2 ns1 ns2 (fst (create_connection e1 a1 k1 b1 k1' ctl1 g1))
           (fst (create_connection e2 a2 k2 b2 k2' ctl2 g2))"
proof -
  from assms obtain j k where "j < length ns1" "j < length ns2" "ns1 ! j = a1" "ns2 ! j = a2"
    "k < length ns1" "k < length ns2" "ns1 ! k = b1" "ns2 ! k = b2"
    unfolding located_def by blast
  then have "joins e1 ns1 (fst (create_connection e1 a1 k1 b1 k1' ctl1 g1)) j k"
    "joins e2 ns2 (fst (create_connection e2 a2 k2 b2 k2' ctl2 g2)) j k"
    by (simp_all add: joins_def)
  then show ?thesis
    unfolding wired_alike_iff by blast
qed

lemma fixed_head_append: "fixed_head ev ns \<Longrightarrow> fixed_head ev (ns @ xs)"
  by (auto simp: fixed_head_def nth_append split: option.splits)

lemma aligned_tracked:
  "aligned e1 e2 ev1 ev2 tr st1 st2 \<Longrightarrow> (a, b) \<in> set tr \<Longrightarrow> located (nodes st1) (nodes st2) a b"
  by (auto simp: aligned_def list_all_iff)

lemma aligned_forget:
  "aligned e1 e2 ev1 ev2 tr st1 st2 \<Longrightarrow> set tr' \<subseteq> set tr \<Longrightarrow> aligned e1 e2 ev1 ev2 tr' st1 st2"
  by (auto simp: aligned_def list_all_iff)

lemma aligned_append_node:
  assumes "aligned e1 e2 ev1 ev2 tr st1 st2"
    and "append_node mk1 st1 = (n1, s1)" and "append_node mk2 st2 = (n2, s2)"
  shows "aligned e1 e2 ev1 ev2 ((n1, n2) # tr) s1 s2"
proof -
  have s: "nodes s1 = nodes st1 @ [n1]" "nodes s2 = nodes st2 @ [n2]"
    "connections s1 = connections st1" "connections s2 = connections st2"
    "last_node s1 = last_node st1" "last_node s2 = last_node st2"
    using assms(2,3) by (auto simp: append_node_eq)
  have len: "length (nodes st1) = length (nodes st2)"
    using assms(1) by (simp add: aligned_def)
  have "list_all2 (wired_alike e1 e2 (nodes st1 @ [n1]) (nodes st2 @ [n2]))
      (connections st1) (connections st2)"
    using assms(1) by (auto simp: aligned_def elim!: list_all2_mono intro: wired_alike_append)
  moreover have "list_all (\<lambda>(a, b). located (nodes st1 @ [n1]) (nodes st2 @ [n2]) a b) tr"
    using assms(1) by (auto simp: aligned_def list_all_iff intro: located_append)
  moreover have "rel_option (located (nodes st1 @ [n1]) (nodes st2 @ [n2]))
      (last_node st1) (last_node st2)"
    using assms(1) by (auto simp: aligned_def elim!: option.rel_mono_strong intro: located_append)
  ultimately show ?thesis
    using assms(1) len s located_new [OF len, of n1 n2]
    by (simp add: aligned_def fixed_head_append)
qed

lemma aligned_append_connection:
  assumes "aligned e1 e2 ev1 ev2 tr st1 st2"
    and "located (nodes st1) (nodes st2) a1 a2" and "located (nodes st1) (nodes st2) b1 b2"
  shows "aligned e1 e2 ev1 ev2 tr (append_connection e1 a1 k1 b1 k1' ctl1 st1)
           (append_connection e2 a2 k2 b2 k2' ctl2 st2)"
  using assms(1) wired_alike_new [OF assms(2,3)]
  by (simp add: aligned_def list_all2_appendI)

lemma aligned_connect_last:
  assumes "aligned e1 e2 ev1 ev2 tr st1 st2" and "located (nodes st1) (nodes st2) d1 d2"
  shows "aligned e1 e2 ev1 ev2 tr (connect_last e1 ev1 d1 st1) (connect_last e2 ev2 d2 st2)"
proof -
  have "rel_option (located (nodes st1) (nodes st2)) (last_node st1) (last_node st2)"
    using assms(1) by (simp add: aligned_def)
  then show ?thesis
  proof (cases rule: option.rel_cases)
    case None
    then show ?thesis using assms(1) by (simp add: connect_last_def)
  next
    case (Some l1 l2)
    then show ?thesis
      using aligned_append_connection [OF assms(1) Some(3) assms(2)]
      by (simp add: connect_last_def)
  qed
qed

lemma aligned_cursor:
  assumes "aligned e1 e2 ev1 ev2 tr st1 st2" and "located (nodes st1) (nodes st2) n1 n2"
  shows "aligned e1 e2 ev1 ev2 tr (st1\<lparr>last_node := Some n1\<rparr>) (st2\<lparr>last_node := Some n2\<rparr>)"
  using assms by (simp add: aligned_def)

lemma wire_construct_aligned:
  assumes "aligned e1 e2 ev1 ev2 [] st1 st2"
    and "\<And>n1 n2 s1 s2. aligned e1 e2 ev1 ev2 [(n1, n2)] s1 s2 \<Longrightarrow>
           aligned e1 e2 ev1 ev2 [(n1, n2)] (x1 n1 s1) (x2 n2 s2)"
  shows "aligned e1 e2 ev1 ev2 [] (wire_construct e1 ev1 x1 (append_node mk1 st1))
           (wire_construct e2 ev2 x2 (append_node mk2 st2))"
proof -
  obtain n1 s1 where a1: "append_node mk1 st1 = (n1, s1)" by (metis surj_pair)
  obtain n2 s2 where a2: "append_node mk2 st2 = (n2, s2)" by (metis surj_pair)
  have s: "aligned e1 e2 ev1 ev2 [(n1, n2)] s1 s2"
    by (rule aligned_append_node [OF assms(1) a1 a2])
  have c: "aligned e1 e2 ev1 ev2 [(n1, n2)] (connect_last e1 ev1 n1 s1) (connect_last e2 ev2 n2 s2)"
    by (rule aligned_connect_last [OF s aligned_tracked [OF s]]) simp
  have x: "aligned e1 e2 ev1 ev2 [(n1, n2)] (x1 n1 (connect_last e1 ev1 n1 s1))
      (x2 n2 (connect_last e2 ev2 n2 s2))"
    by (rule assms(2) [OF c])
  have "aligned e1 e2 ev1 ev2 [(n1, n2)] ((x1 n1 (connect_last e1 ev1 n1 s1))\<lparr>last_node := Some n1\<rparr>)
      ((x2 n2 (connect_last e2 ev2 n2 s2))\<lparr>last_node := Some n2\<rparr>)"
    by (rule aligned_cursor [OF x aligned_tracked [OF x]]) simp
  then show ?thesis
    unfolding a1 a2 by (simp add: aligned_forget)
qed

lemma connect_value_aligned:
  assumes "aligned e1 e2 ev1 ev2 [(n1, n2)] s1 s2"
  shows "aligned e1 e2 ev1 ev2 [(n1, n2)] (connect_value e1 k1 n1 k1' (append_node mk1 s1))
           (connect_value e2 k2 n2 k2' (append_node mk2 s2))"
proof -
  obtain a1 t1 where a1: "append_node mk1 s1 = (a1, t1)" by (metis surj_pair)
  obtain a2 t2 where a2: "append_node mk2 s2 = (a2, t2)" by (metis surj_pair)
  have t: "aligned e1 e2 ev1 ev2 [(a1, a2), (n1, n2)] t1 t2"
    by (rule aligned_append_node [OF assms a1 a2])
  have "aligned e1 e2 ev1 ev2 [(a1, a2), (n1, n2)] (append_connection e1 a1 k1 n1 k1' False t1)
      (append_connection e2 a2 k2 n2 k2' False t2)"
    by (rule aligned_append_connection [OF t aligned_tracked [OF t] aligned_tracked [OF t]])
      simp_all
  then show ?thesis
    unfolding a1 a2 by (simp add: aligned_forget)
qed

lemma while_step_aligned:
  assumes "aligned e1 e2 ev1 ev2 [] st1 st2"
  shows "aligned e1 e2 ev1 ev2 [] (while_step e1 ev1 st1 m) (while_step e2 ev2 st2 m)"
  unfolding while_step_code by (rule wire_construct_aligned [OF assms])

lemma foreach_step_aligned:
  assumes "aligned e1 e2 ev1 ev2 [] st1 st2"
  shows "aligned e1 e2 ev1 ev2 [] (foreach_step e1 ev1 st1 m) (foreach_step e2 ev2 st2 m)"
  unfolding foreach_step_code by (rule wire_construct_aligned [OF assms])

lemma switch_step_aligned:
  assumes "aligned e1 e2 ev1 ev2 [] st1 st2"
  shows "aligned e1 e2 ev1 ev2 [] (switch_step e1 ev1 b st1 m) (switch_step e2 ev2 b st2 m)"
  unfolding switch_step_code by (rule wire_construct_aligned [OF assms])

lemma debug_log_step_aligned:
  assumes "aligned e1 e2 ev1 ev2 [] st1 st2"
  shows "aligned e1 e2 ev1 ev2 [] (debug_log_step e1 ev1 st1 m) (debug_log_step e2 ev2 st2 m)"
  unfolding debug_log_step_code
  by (rule wire_construct_aligned [OF assms]) (simp add: connect_value_aligned)

lemma if_step_aligned:
  assumes "aligned e1 e2 ev1 ev2 [] st1 st2"
  shows "aligned e1 e2 ev1 ev2 [] (if_step e1 ev1 st1 m) (if_step e2 ev2 st2 m)"
  unfolding if_step_code
  by (rule wire_construct_aligned [OF assms])
    (simp add: connect_value_aligned split: option.splits)

lemma assignment_step_aligned:
  assumes "aligned e1 e2 ev1 ev2 [] st1 st2"
  shows "aligned e1 e2 ev1 ev2 [] (assignment_step e1 ev1 st1 m) (assignment_step e2 ev2 st2 m)"
  unfolding assignment_step_code
  by (rule wire_construct_aligned [OF assms])
    (simp add: connect_value_aligned split: option.splits)

lemma yield_step_aligned:
  assumes "aligned e1 e2 ev1 ev2 [] st1 st2"
  shows "aligned e1 e2 ev1 ev2 [] (yield_step e1 ev1 st1 m) (yield_step e2 ev2 st2 m)"
  unfolding yield_step_code
  by (rule wire_construct_aligned [OF assms])
    (simp add: connect_value_aligned split: option.splits sum.splits)

lemma call_step_aligned:
  assumes "aligned e1 e2 ev1 ev2 [] st1 st2"
  shows "aligned e1 e2 ev1 ev2 [] (call_step e1 ev1 b st1 m) (call_step e2 ev2 b st2 m)"
proof (cases "(group_of m 1 = ''Debug'' \<and> group_of m 2 = ''Log'')
    \<or> CHR ''='' \<in> set (last_line (drop (m_start m - 20) (take (m_start m) b)))")
  case True
  then have "call_step e ev b st m = st" for e ev st
    unfolding call_step_code by auto
  then show ?thesis using assms by simp
next
  case False
  then have "call_step e ev b st m =
      wire_construct e ev (\<lambda>n s. s)
        (append_node
           (create_custom_invoke_node e (group_of m 2)
              (if group_of m 1 \<in> set [''GameObject'', ''Transform'', ''Rigidbody'']
               then ''UnityEngine.'' @ group_of m 1 else group_of m 1)
              (map (\<lambda>i. \<lparr>param_type = ''System.Object'', param_name = ''arg'' @ str_nat i\<rparr>)
                 [0..<(if strip (group_of m 3) \<noteq> []
                       then length (filter (\<lambda>a. strip a \<noteq> [])
                                      (split_char CHR '','' (strip (group_of m 3))))
                       else 0)])
              (Some ''void'') False) st)" for e ev st
    unfolding call_step_code by auto
  then show ?thesis
    by (simp only:) (rule wire_construct_aligned [OF assms])
qed

lemma for_step_aligned:
  assumes "aligned e1 e2 ev1 ev2 [] st1 st2"
  shows "rel_sum (=) (aligned e1 e2 ev1 ev2 []) (for_step e1 ev1 st1 m) (for_step e2 ev2 st2 m)"
proof (cases "if isdigit (strip (group_of m 2)) then py_int (strip (group_of m 2)) else Inr 0")
  case (Inl err)
  then show ?thesis
    by (simp add: for_step_code)
next
  case start: (Inr a)
  show ?thesis
  proof (cases "if isdigit (strip (group_of m 4)) then py_int (strip (group_of m 4)) else Inr 10")
    case (Inl err)
    then show ?thesis
      using start by (simp add: for_step_code)
  next
    case (Inr b)
    obtain f1 s1 where f1: "append_node (create_for_node e1) st1 = (f1, s1)" by (metis surj_pair)
    obtain f2 s2 where f2: "append_node (create_for_node e2) st2 = (f2, s2)" by (metis surj_pair)
    obtain a1 t1 where a1: "append_node (create_literal_node e1 (JInt a) ''int'') s1 = (a1, t1)"
      by (metis surj_pair)
    obtain a2 t2 where a2: "append_node (create_literal_node e2 (JInt a) ''int'') s2 = (a2, t2)"
      by (metis surj_pair)
    obtain b1 u1 where b1: "append_node (create_literal_node e1 (JInt b) ''int'') t1 = (b1, u1)"
      by (metis surj_pair)
    obtain b2 u2 where b2: "append_node (create_literal_node e2 (JInt b) ''int'') t2 = (b2, u2)"
      by (metis surj_pair)
    let ?tr = "[(b1, b2), (a1, a2), (f1, f2)]"
    have u: "aligned e1 e2 ev1 ev2 ?tr u1 u2"
      by (rule aligned_append_node [OF aligned_append_node [OF aligned_append_node
            [OF assms f1 f2] a1 a2] b1 b2])
    have lf: "located (nodes u1) (nodes u2) f1 f2" and la: "located (nodes u1) (nodes u2) a1 a2"
      and lb: "located (nodes u1) (nodes u2) b1 b2"
      using aligned_tracked [OF u] by simp_all
    have c: "aligned e1 e2 ev1 ev2 ?tr (connect_last e1 ev1 f1 u1) (connect_last e2 ev2 f2 u2)"
      by (rule aligned_connect_last [OF u lf])
    have v: "aligned e1 e2 ev1 ev2 ?tr
        (append_connection e1 a1 ''output'' f1 ''%firstIndex'' False (connect_last e1 ev1 f1 u1))
        (append_connection e2 a2 ''output'' f2 ''%firstIndex'' False (connect_last e2 ev2 f2 u2))"
      by (rule aligned_append_connection [OF c]) (simp_all add: la lf)
    have w: "aligned e1 e2 ev1 ev2 ?tr
        (append_connection e1 b1 ''output'' f1 ''%lastIndex'' False
          (append_connection e1 a1 ''output'' f1 ''%firstIndex'' False (connect_last e1 ev1 f1 u1)))
        (append_connection e2 b2 ''output'' f2 ''%lastIndex'' False
          (append_connection e2 a2 ''output'' f2 ''%firstIndex'' False (connect_last e2 ev2 f2 u2)))"
      by (rule aligned_append_connection [OF v]) (simp_all add: lb lf)
    have "aligned e1 e2 ev1 ev2 ?tr
        ((append_connection e1 b1 ''output'' f1 ''%lastIndex'' False
          (append_connection e1 a1 ''output'' f1 ''%firstIndex'' False
            (connect_last e1 ev1 f1 u1)))\<lparr>last_node := Some f1\<rparr>)
        ((append_connection e2 b2 ''output'' f2 ''%lastIndex'' False
          (append_connection e2 a2 ''output'' f2 ''%firstIndex'' False
            (connect_last e2 ev2 f2 u2)))\<lparr>last_node := Some f2\<rparr>)"
      by (rule aligned_cursor [OF w]) (simp add: lf)
    then show ?thesis
      using start Inr by (simp add: for_step_code f1 f2 a1 a2 b1 b2 aligned_forget)
  qed
qed

lemma foldl_aligned:
  assumes "\<And>st1 st2 m. aligned e1 e2 ev1 ev2 [] st1 st2 \<Longrightarrow>
      aligned e1 e2 ev1 ev2 [] (f1 st1 m) (f2 st2 m)"
    and "aligned e1 e2 ev1 ev2 [] st1 st2"
  shows "aligned e1 e2 ev1 ev2 [] (foldl f1 st1 ms) (foldl f2 st2 ms)"
  using assms(2) by (induction ms arbitrary: st1 st2) (auto intro: assms(1))

lemma run_steps_aligned:
  assumes "\<And>st1 st2 m. aligned e1 e2 ev1 ev2 [] st1 st2 \<Longrightarrow>
      rel_sum (=) (aligned e1 e2 ev1 ev2 []) (f1 st1 m) (f2 st2 m)"
    and "aligned e1 e2 ev1 ev2 [] st1 st2"
  shows "rel_sum (=) (aligned e1 e2 ev1 ev2 []) (run_steps f1 ms st1) (run_steps f2 ms st2)"
  using assms(2)
proof (induction ms arbitrary: st1 st2)
  case Nil
  then show ?case by simp
next
  case (Cons m ms)
  from assms(1) [OF Cons.prems, of m] show ?case
    by (cases "f1 st1 m"; cases "f2 st2 m") (auto intro: Cons.IH)
qed

lemma start_aligned:
  "aligned e1 e2 (event_of e1 g1 meth) (event_of e2 g2 meth) []
     (start_state e1 g1 meth) (start_state e2 g2 meth)"
proof (cases "method_name meth \<in> fst ` set UNITY_EVENTS")
  case True
  have "located [a] [b] a b" for a b :: node
    using located_new [of "[]" "[]" a b] by simp
  then show ?thesis
    using True by (simp add: aligned_def event_of_def start_state_def fixed_head_def)
next
  case False
  then show ?thesis
    by (simp add: aligned_def event_of_def start_state_def fixed_head_def)
qed

lemma attach_description_ids:
  assumes "fixed_head ev ns"
  shows "map (unit_id e) (attach_description meth ev ns) = map (unit_id e) ns"
proof (cases ev)
  case None
  then show ?thesis by (simp add: attach_description_def)
next
  case (Some v)
  show ?thesis
  proof (cases "comments meth \<noteq> [] \<and> ns \<noteq> []")
    case False
    then show ?thesis by (auto simp: attach_description_def)
  next
    case True
    have v: "ns ! 0 = v"
      using assms Some by (simp add: fixed_head_def)
    have "unit_id e (v\<lparr>description := d\<rparr>) = unit_id e v" for d
      by (simp add: unit_id_def)
    then have "(map (unit_id e) ns)[0 := unit_id e (v\<lparr>description := Some (comments meth)\<rparr>)]
        = map (unit_id e) ns"
      using True v by (simp add: list_update_same_conv)
    then show ?thesis
      using True Some by (simp add: attach_description_def map_update)
  qed
qed

lemma process_method_aligned:
  "rel_sum (=) (\<lambda>r1 r2. length (fst (fst r1)) = length (fst (fst r2))
                         \<and> same_wiring e1 e2 (fst r1) (fst r2))
     (process_method e1 g1 meth) (process_method e2 g2 meth)"
proof -
  let ?ev1 = "event_of e1 g1 meth" and ?ev2 = "event_of e2 g2 meth" and ?b = "body meth"
  let ?r1 = "run_steps (for_step e1 ?ev1) (finditer for_pattern ?b) (start_state e1 g1 meth)"
  let ?r2 = "run_steps (for_step e2 ?ev2) (finditer for_pattern ?b) (start_state e2 g2 meth)"
  have rel: "rel_sum (=) (aligned e1 e2 ?ev1 ?ev2 []) ?r1 ?r2"
    by (rule run_steps_aligned [OF for_step_aligned start_aligned])
  show ?thesis
  proof (cases ?r1)
    case (Inl a)
    then have "?r2 = Inl a" using rel by (cases ?r2) simp_all
    then show ?thesis using Inl by (simp add: process_method_code)
  next
    case r1: (Inr s1)
    then obtain s2 where r2: "?r2 = Inr s2" and s: "aligned e1 e2 ?ev1 ?ev2 [] s1 s2"
      using rel by (cases ?r2) simp_all
    define t1 where "t1 = foldl (call_step e1 ?ev1 ?b)
        (foldl (yield_step e1 ?ev1)
          (foldl (assignment_step e1 ?ev1)
            (foldl (if_step e1 ?ev1)
              (foldl (debug_log_step e1 ?ev1)
                (foldl (switch_step e1 ?ev1 ?b)
                  (foldl (foreach_step e1 ?ev1)
                    (foldl (while_step e1 ?ev1) s1 (finditer while_pattern ?b))
                    (finditer foreach_pattern ?b))
                  (finditer switch_pattern ?b))
                (finditer debug_log_pattern ?b))
              (finditer if_pattern ?b))
            (finditer assignment_pattern ?b))
          (finditer yield_pattern ?b))
        (finditer method_call_pattern ?b)"
    define t2 where "t2 = foldl (call_step e2 ?ev2 ?b)
        (foldl (yield_step e2 ?ev2)
          (foldl (assignment_step e2 ?ev2)
            (foldl (if_step e2 ?ev2)
              (foldl (debug_log_step e2 ?ev2)
                (foldl (switch_step e2 ?ev2 ?b)
                  (foldl (foreach_step e2 ?ev2)
                    (foldl (while_step e2 ?ev2) s2 (finditer while_pattern ?b))
                    (finditer foreach_pattern ?b))
                  (finditer switch_pattern ?b))
                (finditer debug_log_pattern ?b))
              (finditer if_pattern ?b))
            (finditer assignment_pattern ?b))
          (finditer yield_pattern ?b))
        (finditer method_call_pattern ?b)"
    have "aligned e1 e2 ?ev1 ?ev2 [] t1 t2"
      unfolding t1_def t2_def
      by (intro foldl_aligned [OF call_step_aligned] foldl_aligned [OF yield_step_aligned]
            foldl_aligned [OF assignment_step_aligned] foldl_aligned [OF if_step_aligned]
            foldl_aligned [OF debug_log_step_aligned] foldl_aligned [OF switch_step_aligned]
            foldl_aligned [OF foreach_step_aligned] foldl_aligned [OF while_step_aligned] s)
    then have t: "length (nodes t1) = length (nodes t2)"
      "list_all2 (wired_alike e1 e2 (nodes t1) (nodes t2)) (connections t1) (connections t2)"
      "fixed_head ?ev1 (nodes t1)" "fixed_head ?ev2 (nodes t2)"
      by (simp_all add: aligned_def)
    define n1 where "n1 = attach_description meth ?ev1 (nodes t1)"
    define n2 where "n2 = attach_description meth ?ev2 (nodes t2)"
    have i1: "map (unit_id e1) n1 = map (unit_id e1) (nodes t1)"
      unfolding n1_def by (rule attach_description_ids [OF t(3)])
    have i2: "map (unit_id e2) n2 = map (unit_id e2) (nodes t2)"
      unfolding n2_def by (rule attach_description_ids [OF t(4)])
    have ln: "length n1 = length n2"
      using arg_cong [OF i1, of length] arg_cong [OF i2, of length] t(1) by simp
    have w: "list_all2 (wired_alike e1 e2 n1 n2) (connections t1) (connections t2)"
      using t(2) by (rule list_all2_mono) (rule wired_alike_ids [OF _ i1 i2])
    have p1: "process_method e1 g1 meth = Inr ((n1, connections t1), self t1)"
      using r1 by (simp add: process_method_code t1_def n1_def)
    have p2: "process_method e2 g2 meth = Inr ((n2, connections t2), self t2)"
      using r2 by (simp add: process_method_code t2_def n2_def)
    show ?thesis
      unfolding p1 p2 by (simp add: same_wiring_def ln w)
  qed
qed

lemma process_methods_wiring:
  assumes "process_methods e1 ms g1 = Inr h1" and "process_methods e2 ms g2 = Inr h2"
    and "length (self_nodes g1) = length (self_nodes g2)"
    and "same_wiring e1 e2 (generator_graph g1) (generator_graph g2)"
  shows "length (self_nodes h1) = length (self_nodes h2)
     \<and> same_wiring e1 e2 (generator_graph h1) (generator_graph h2)"
  using assms
proof (induction ms arbitrary: g1 g2)
  case Nil
  then show ?case by simp
next
  case (Cons meth rest)
  from Cons.prems(1) obtain ns1 cs1 k1 where
    pm1: "process_method e1 g1 meth = Inr ((ns1, cs1), k1)"
    and rest1: "process_methods e1 rest
         (k1\<lparr>self_nodes := self_nodes k1 @ ns1, self_connections := self_connections k1 @ cs1\<rparr>)
       = Inr h1"
    by (auto split: sum.splits)
  from Cons.prems(2) obtain ns2 cs2 k2 where
    pm2: "process_method e2 g2 meth = Inr ((ns2, cs2), k2)"
    and rest2: "process_methods e2 rest
         (k2\<lparr>self_nodes := self_nodes k2 @ ns2, self_connections := self_connections k2 @ cs2\<rparr>)
       = Inr h2"
    by (auto split: sum.splits)
  have f1: "self_nodes k1 = self_nodes g1" "self_connections k1 = self_connections g1"
    using process_method_facts(5) [OF pm1] by simp_all
  have f2: "self_nodes k2 = self_nodes g2" "self_connections k2 = self_connections g2"
    using process_method_facts(5) [OF pm2] by simp_all
  have new: "length ns1 = length ns2" "list_all2 (wired_alike e1 e2 ns1 ns2) cs1 cs2"
    using process_method_aligned [of e1 e2 g1 meth g2] pm1 pm2
    by (simp_all add: same_wiring_def)
  have old: "list_all2 (wired_alike e1 e2 (self_nodes g1) (self_nodes g2))
      (self_connections g1) (self_connections g2)"
    using Cons.prems(4) by (simp add: same_wiring_def generator_graph_def)
  have a: "list_all2 (wired_alike e1 e2 (self_nodes g1 @ ns1) (self_nodes g2 @ ns2))
      (self_connections g1) (self_connections g2)"
    using old by (rule list_all2_mono) (rule wired_alike_append)
  have b: "list_all2 (wired_alike e1 e2 (self_nodes g1 @ ns1) (self_nodes g2 @ ns2)) cs1 cs2"
    using new(2) by (rule list_all2_mono) (rule wired_alike_shift [OF _ Cons.prems(3)])
  have "same_wiring e1 e2
      (generator_graph (k1\<lparr>self_nodes := self_nodes k1 @ ns1,
          self_connections := self_connections k1 @ cs1\<rparr>))
      (generator_graph (k2\<lparr>self_nodes := self_nodes k2 @ ns2,
          self_connections := self_connections k2 @ cs2\<rparr>))"
    using list_all2_appendI [OF a b] by (simp add: same_wiring_def generator_graph_def f1 f2)
  moreover have "length (self_nodes (k1\<lparr>self_nodes := self_nodes k1 @ ns1,
          self_connections := self_connections k1 @ cs1\<rparr>))
      = length (self_nodes (k2\<lparr>self_nodes := self_nodes k2 @ ns2,
          self_connections := self_connections k2 @ cs2\<rparr>))"
    using Cons.prems(3) new(1) by (simp add: f1 f2)
  ultimately show ?case
    using Cons.IH [OF rest1 rest2] by simp
qed

lemma element_refs_node [simp]: "element_refs (node_to_dict e n) = []"
  by (simp add: element_refs_def)

lemma element_refs_connection [simp]:
  "element_refs (connection_to_dict c)
     = [Some (JStr (source_unit_id c)), Some (JStr (destination_unit_id c))]"
  by (simp add: element_refs_def)

lemma node_element_is_node [simp]: "is_node_element (node_to_dict e n)"
  by (simp add: is_node_element_def)

lemma refers_alike_node:
  assumes "j < length ns1" and "length ns1 = length ns2"
  shows "refers_alike (map (node_to_dict e1) ns1 @ xs) (map (node_to_dict e2) ns2 @ ys)
           (Some (JStr (unit_id e1 (ns1 ! j)))) (Some (JStr (unit_id e2 (ns2 ! j))))"
proof -
  have "j \<in> set [0..<length (map (node_to_dict e1) ns1 @ xs)]"
    using assms(1) by simp
  moreover have "(map (node_to_dict e1) ns1 @ xs) ! j = node_to_dict e1 (ns1 ! j)"
    "(map (node_to_dict e2) ns2 @ ys) ! j = node_to_dict e2 (ns2 ! j)"
    "j < length (map (node_to_dict e2) ns2 @ ys)"
    using assms by (simp_all add: nth_append)
  ultimately show ?thesis
    unfolding refers_alike_def list_ex_iff by (intro bexI [of _ j]) simp_all
qed

lemma same_wiring_references:
  assumes "same_wiring e1 e2 (ns1, cs1) (ns2, cs2)" and "length ns1 = length ns2"
  shows "same_references (map (node_to_dict e1) ns1 @ map connection_to_dict cs1)
           (map (node_to_dict e2) ns2 @ map connection_to_dict cs2)"
proof -
  let ?xs = "map (node_to_dict e1) ns1 @ map connection_to_dict cs1"
  let ?ys = "map (node_to_dict e2) ns2 @ map connection_to_dict cs2"
  let ?R = "\<lambda>x y. list_all2 (refers_alike ?xs ?ys) (element_refs x) (element_refs y)"
  have "list_all2 (\<lambda>a b. ?R (node_to_dict e1 a) (node_to_dict e2 b)) ns1 ns2"
    using assms(2) by (simp add: list_all2_conv_all_nth)
  then have a: "list_all2 ?R (map (node_to_dict e1) ns1) (map (node_to_dict e2) ns2)"
    by (simp add: list_all2_map1 list_all2_map2)
  have "?R (connection_to_dict c1) (connection_to_dict c2)"
    if "wired_alike e1 e2 ns1 ns2 c1 c2" for c1 c2
  proof -
    from that obtain j k where "joins e1 ns1 c1 j k" "joins e2 ns2 c2 j k"
      unfolding wired_alike_iff by blast
    then have jk: "j < length ns1" "k < length ns1"
      "source_unit_id c1 = unit_id e1 (ns1 ! j)" "destination_unit_id c1 = unit_id e1 (ns1 ! k)"
      "source_unit_id c2 = unit_id e2 (ns2 ! j)" "destination_unit_id c2 = unit_id e2 (ns2 ! k)"
      by (simp_all add: joins_def)
    show ?thesis
      using refers_alike_node [OF jk(1) assms(2), of e1 "map connection_to_dict cs1" e2
          "map connection_to_dict cs2"]
        refers_alike_node [OF jk(2) assms(2), of e1 "map connection_to_dict cs1" e2
          "map connection_to_dict cs2"]
      by (simp add: jk)
  qed
  then have "list_all2 (\<lambda>c1 c2. ?R (connection_to_dict c1) (connection_to_dict c2)) cs1 cs2"
    using assms(1) by (auto simp: same_wiring_def elim!: list_all2_mono)
  then have b: "list_all2 ?R (map connection_to_dict cs1) (map connection_to_dict cs2)"
    by (simp add: list_all2_map1 list_all2_map2)
  show ?thesis
    unfolding same_references_def by (rule list_all2_appendI [OF a b])
qed

text \<open>
  Claim C8. Two conversions of the same source text, under any two identifier sources and any
  two hash functions, either both raise the same error or yield documents that agree in
  everything but the generated tokens and the unit identifiers derived from them. The node
  and connection lists agree once \<open>guid\<close>, \<open>$id\<close> and the unit references are blanked,
  and so do the serialised elements; node count, connection count and the number of nodes of
  each category are equal. The references designate the same nodes: the \<open>i\<close>-th connection
  of either run leads from the \<open>j\<close>-th to the \<open>k\<close>-th node of its run, for the same \<open>j\<close>
  and \<open>k\<close>, and every \<^verbatim>\<open>$ref\<close> of the \<open>i\<close>-th element is the \<^verbatim>\<open>$id\<close> of a node
  element at the same place in both documents.
\<close>

theorem two_run_determinism:
  "rel_sum (=) (same_document cs_code e1 e2)
     (generate_graph e1 (CSharpParser cs_code) VisualScriptingGenerator)
     (generate_graph e2 (CSharpParser cs_code) VisualScriptingGenerator)"
proof -
  let ?p = "CSharpParser cs_code"
  let ?m1 = "process_methods e1 (methods ?p) VisualScriptingGenerator"
  let ?m2 = "process_methods e2 (methods ?p) VisualScriptingGenerator"
  have rel: "rel_sum (=) generators_alike ?m1 ?m2"
    by (rule process_methods_sim [OF fresh_generators_alike])
  show ?thesis
  proof (cases ?m1)
    case (Inl a)
    then have "?m2 = Inl a" using rel by (cases ?m2) simp_all
    then show ?thesis using Inl by (simp add: generate_graph_def)
  next
    case m1: (Inr h1)
    then obtain h2 where m2: "?m2 = Inr h2" and al: "generators_alike h1 h2"
      using rel by (cases ?m2) simp_all
    have ss: "same_structure (generator_graph h1) (generator_graph h2)"
      using al by (simp add: generators_alike_def)
    then have er: "map erase_node (self_nodes h1) = map erase_node (self_nodes h2)"
      "map erase_connection (self_connections h1) = map erase_connection (self_connections h2)"
      by (simp_all add: same_structure_def generator_graph_def)
    have wr: "length (self_nodes h1) = length (self_nodes h2)
        \<and> same_wiring e1 e2 (generator_graph h1) (generator_graph h2)"
      by (rule process_methods_wiring [OF m1 m2])
        (simp_all add: VisualScriptingGenerator_def same_wiring_def generator_graph_def)
    have refs: "same_references
        (map (node_to_dict e1) (self_nodes h1) @ map connection_to_dict (self_connections h1))
        (map (node_to_dict e2) (self_nodes h2) @ map connection_to_dict (self_connections h2))"
      using same_wiring_references [of e1 e2 "self_nodes h1" "self_connections h1"
          "self_nodes h2" "self_connections h2"] wr
      by (simp add: generator_graph_def)
    from erase_elements(1) [OF er(1), of e1 e2] erase_elements(2) [OF er(2)]
    show ?thesis
      using m1 m2 ss wr refs
      by (simp add: generate_graph_def Let_def same_document_def comp_def)
  qed
qed

section \<open>The claims at concrete inputs\<close>

text \<open>
  The theorems of this section evaluate the translator at the sample inputs. Where a general
  theorem has a premise, the instance discharges it at a sample method.
\<close>

lemma Inr_result: "map_sum id f r = Inr y \<Longrightarrow> \<exists>x. r = Inr x \<and> f x = y"
  by (cases r) auto

text \<open>
  The cursor protocol at \<open>start_method\<close>: the event node (unit 1) triggers the conditional
  (unit 2), whose exit enters the assignment (unit 4).
\<close>

theorem control_cursor_wiring_witness:
  "\<exists>ns cs g'. process_method demo_env VisualScriptingGenerator start_method = Inr ((ns, cs), g')
     \<and> map edge (filter is_control cs)
         = chain demo_env (Some (hd ns, ''trigger'')) (filter is_construct ns)
     \<and> map edge (filter is_control cs)
         = [(''1'', ''trigger'', ''2'', ''enter''), (''2'', ''exit'', ''4'', ''enter'')]"
proof -
  have "map_sum id (\<lambda>((ns, cs), g'). map edge (filter is_control cs))
      (process_method demo_env VisualScriptingGenerator start_method)
    = Inr [(''1'', ''trigger'', ''2'', ''enter''), (''2'', ''exit'', ''4'', ''enter'')]"
    by code_simp
  from Inr_result [OF this] obtain ns cs g' where
    r: "process_method demo_env VisualScriptingGenerator start_method = Inr ((ns, cs), g')"
    and v: "map edge (filter is_control cs)
         = [(''1'', ''trigger'', ''2'', ''enter''), (''2'', ''exit'', ''4'', ''enter'')]"
    by auto
  have ev: "method_name start_method \<in> fst ` set UNITY_EVENTS"
    by code_simp
  show ?thesis
    using control_cursor_wiring [OF r] r v ev by auto
qed



text \<open>
  Claim C3 (for-loop bounds): the claim says that a captured bound that is not a plain integer
  literal defaults to 0 (start) or 10 (end). The source guards \<^verbatim>\<open>int(end_val)\<close> with
  \<^verbatim>\<open>end_val.isdigit()\<close>, which holds of the superscript two (U+00B2), and \<^verbatim>\<open>int\<close> then
  raises \<^verbatim>\<open>ValueError\<close>: for the loop \<^verbatim>\<open>for (int i = 0; i < \<close>U+00B2\<^verbatim>\<open>; i++)\<close> the
  translation of the method returns no node at all, under every environment.
\<close>

theorem for_bound_superscript_raises:
  "process_method e VisualScriptingGenerator superscript_bound_method = Inl ValueError"
  by code_simp

text \<open>
  Claim C4 (switch case ports): the claim says that the switch node has one numbered output for
  each \<^verbatim>\<open>case N:\<close> label of the brace-balanced switch body. The source starts
  \<^verbatim>\<open>_extract_switch_body\<close> at \<^verbatim>\<open>match.end()\<close>, after the opening brace, so the depth
  first returns to zero only at the end of a nested block, if there is one. For a switch with
  two case labels and no nested block the extracted body is empty and the node has the ports
  \<open>enter\<close>, \<open>selector\<close> and \<open>default\<close> only; the balanced scan from the opening brace,
  as \<^verbatim>\<open>_extract_body\<close> does it, finds the two labels.
\<close>

theorem switch_cases_not_counted:
  "map_sum id (\<lambda>((ns, cs), g'). map node_summary ns)
       (process_method e VisualScriptingGenerator switch_method)
     = Inr [(''Unity.VisualScripting.Update'', [''trigger'']),
            (''Unity.VisualScripting.SwitchOnInteger'', [''enter'', ''selector'', ''default''])]
   \<and> map (\<lambda>m. extract_switch_body (body switch_method) (m_end m))
         (finditer switch_pattern (body switch_method)) = [[]]
   \<and> map (\<lambda>m. length (finditer case_pattern (extract_body (body switch_method) (m_end m - 1))))
         (finditer switch_pattern (body switch_method)) = [2]"
  by code_simp



text \<open>
  The document of \<open>demo_parser\<close> (the methods \<open>Start\<close> and \<open>Update\<close>): four connections,
  each between two of the six units.
\<close>

theorem no_dangling_references_witness:
  "\<exists>graph g'. generate_graph demo_env demo_parser VisualScriptingGenerator = Inr (graph, g')
     \<and> list_all (resolves demo_env (self_nodes g')) (self_connections g')
     \<and> list_all (\<lambda>x. list_all (\<lambda>r. r \<in> set (element_ids (document_elements graph)))
                      (element_refs x))
         (document_elements graph)
     \<and> map (\<lambda>c. (source_unit_id c, destination_unit_id c)) (self_connections g')
         = [(''1'', ''2''), (''2'', ''4''), (''6'', ''7''), (''9'', ''7'')]
     \<and> map (unit_id demo_env) (self_nodes g') = [''1'', ''2'', ''4'', ''6'', ''7'', ''9'']"
proof -
  have "map_sum id (\<lambda>(graph, g').
        (map (\<lambda>c. (source_unit_id c, destination_unit_id c)) (self_connections g'),
         map (unit_id demo_env) (self_nodes g')))
      (generate_graph demo_env demo_parser VisualScriptingGenerator)
    = Inr ([(''1'', ''2''), (''2'', ''4''), (''6'', ''7''), (''9'', ''7'')],
           [''1'', ''2'', ''4'', ''6'', ''7'', ''9''])"
    by code_simp
  from Inr_result [OF this] obtain graph g' where
    r: "generate_graph demo_env demo_parser VisualScriptingGenerator = Inr (graph, g')"
    and v: "map (\<lambda>c. (source_unit_id c, destination_unit_id c)) (self_connections g')
         = [(''1'', ''2''), (''2'', ''4''), (''6'', ''7''), (''9'', ''7'')]"
      "map (unit_id demo_env) (self_nodes g') = [''1'', ''2'', ''4'', ''6'', ''7'', ''9'']"
    by auto
  have fresh: "list_all (resolves demo_env (self_nodes VisualScriptingGenerator))
      (self_connections VisualScriptingGenerator)"
    by (simp add: VisualScriptingGenerator_def)
  show ?thesis
    using no_dangling_references [OF r fresh] r v by auto
qed

text \<open>
  Claim C7 (translation never raises): the claim says that translation completes without an
  exception for every input text, a numeric literal that fails to parse falling back to the
  default. For the class text \<open>superscript_source\<close>, whose loop starts at the superscript two
  (U+00B2), \<^verbatim>\<open>convert\<close> raises the \<^verbatim>\<open>ValueError\<close> of \<^verbatim>\<open>int\<close>, under every
  environment.
\<close>

theorem convert_raises_on_superscript_digit:
  "convert e superscript_source = Inl ValueError"
  by code_simp

text \<open>
  The element sequence of the same document: six node elements, then four connection elements,
  the nodes of \<open>Start\<close> before those of \<open>Update\<close>.
\<close>

theorem elements_nodes_before_connections_witness:
  "\<exists>graph g'. generate_graph demo_env demo_parser VisualScriptingGenerator = Inr (graph, g')
     \<and> document_elements graph
           = map (node_to_dict demo_env) (self_nodes g')
             @ map connection_to_dict (self_connections g')
     \<and> map is_connection_element (document_elements graph)
           = [False, False, False, False, False, False, True, True, True, True]
     \<and> map (map node_type \<circ> fst) (method_outputs demo_env (methods demo_parser)
            VisualScriptingGenerator)
           = [[''Unity.VisualScripting.Start'', ''Unity.VisualScripting.If'',
               ''Unity.VisualScripting.SetVariable''],
              [''Unity.VisualScripting.Update'', ''Unity.VisualScripting.If'',
               ''Unity.VisualScripting.GenericGreater'']]
     \<and> map node_type (self_nodes g')
           = [''Unity.VisualScripting.Start'', ''Unity.VisualScripting.If'',
              ''Unity.VisualScripting.SetVariable'', ''Unity.VisualScripting.Update'',
              ''Unity.VisualScripting.If'', ''Unity.VisualScripting.GenericGreater'']"
proof -
  have "map_sum id (\<lambda>(graph, g').
        (map is_connection_element (document_elements graph), map node_type (self_nodes g')))
      (generate_graph demo_env demo_parser VisualScriptingGenerator)
    = Inr ([False, False, False, False, False, False, True, True, True, True],
           [''Unity.VisualScripting.Start'', ''Unity.VisualScripting.If'',
            ''Unity.VisualScripting.SetVariable'', ''Unity.VisualScripting.Update'',
            ''Unity.VisualScripting.If'', ''Unity.VisualScripting.GenericGreater''])"
    by code_simp
  from Inr_result [OF this] obtain graph g' where
    r: "generate_graph demo_env demo_parser VisualScriptingGenerator = Inr (graph, g')"
    and v: "map is_connection_element (document_elements graph)
           = [False, False, False, False, False, False, True, True, True, True]"
      "map node_type (self_nodes g')
           = [''Unity.VisualScripting.Start'', ''Unity.VisualScripting.If'',
              ''Unity.VisualScripting.SetVariable'', ''Unity.VisualScripting.Update'',
              ''Unity.VisualScripting.If'', ''Unity.VisualScripting.GenericGreater'']"
    by auto
  have m: "map (map node_type \<circ> fst) (method_outputs demo_env (methods demo_parser)
            VisualScriptingGenerator)
           = [[''Unity.VisualScripting.Start'', ''Unity.VisualScripting.If'',
               ''Unity.VisualScripting.SetVariable''],
              [''Unity.VisualScripting.Update'', ''Unity.VisualScripting.If'',
               ''Unity.VisualScripting.GenericGreater'']]"
    by code_simp
  show ?thesis
    using elements_nodes_before_connections [OF r] r v m by auto
qed


end
